theory Spec2Isabelle
  imports Complex_Main "HOL-Library.Multiset" "HOL-Library.List_Lexorder" "HOL-Library.Char_ord"
begin

section \<open>Go values as seen through reflection\<close>

text \<open>
  The diff engine of \<^verbatim>\<open>common/entity.go\<close> walks two struct values with package
  \<^verbatim>\<open>reflect\<close>. The values it can meet are modelled by the datatype \<open>gval\<close>:
  a value is what \<^verbatim>\<open>Value.Interface()\<close> returns for a field, so \<open>VNil\<close> is the nil
  interface (an interface-typed field that holds nothing), and a value held in an
  interface-typed field is the value itself. Every other value carries its Go type
  (\<^verbatim>\<open>reflect.TypeOf\<close>), given by a name such as \<^verbatim>\<open>int64\<close>, \<^verbatim>\<open>[]string\<close> or
  \<^verbatim>\<open>common.Entity\<close>: two types are the same type when the names are equal. A finite
  floating-point number is its rational value; \<open>FNaN\<close> is a not-a-number; the sign of a
  zero is not kept, \<^verbatim>\<open>==\<close> does not see it. A pointer is \<open>None\<close> when nil and otherwise
  its address with the value it points to. A slice is \<open>None\<close> when nil and otherwise
  the address of its first element with its elements; a map is \<open>None\<close> when nil and
  otherwise the address of the map with its entries, one for each key. Values are
  finite trees, so no value reaches itself through its pointers. Maps are keyed by
  strings, as every map of the resource schemas is. Arrays, channels and complex
  numbers do not occur in the resource schemas and are left out.
\<close>

datatype gofloat = FNum rat | FInf bool | FNaN

datatype kind = KBool | KInt | KFloat | KString | KPtr | KSlice | KMap | KStruct
  | KInterface | KFunc

text \<open>
  What \<^verbatim>\<open>reflect.StructField\<close> and \<^verbatim>\<open>Value.CanInterface\<close> tell about one field:
  its Go name, the value of its \<^verbatim>\<open>json\<close> tag (empty when there is none), whether the
  field can be read (it is exported), whether it is embedded (\<^verbatim>\<open>Anonymous\<close>) and the
  kind of its declared type.
\<close>

record fieldinfo =
  fname :: string
  ftag :: string
  exported :: bool
  anonymous :: bool
  fkind :: kind

type_synonym gotype = string

datatype gval =
    VNil
  | VBool gotype bool
  | VInt gotype int
  | VFloat gotype gofloat
  | VString gotype string
  | VPtr gotype "(nat \<times> gval) option"
  | VSlice gotype "(nat \<times> gval list) option"
  | VMap gotype "(nat \<times> (string \<times> gval) list) option"
  | VStruct gotype "(fieldinfo \<times> gval) list"
  | VFunc gotype "nat option"

fun typeOf :: "gval \<Rightarrow> gotype option" where
  "typeOf VNil = None"
| "typeOf (VBool t b) = Some t"
| "typeOf (VInt t i) = Some t"
| "typeOf (VFloat t x) = Some t"
| "typeOf (VString t s) = Some t"
| "typeOf (VPtr t p) = Some t"
| "typeOf (VSlice t xs) = Some t"
| "typeOf (VMap t m) = Some t"
| "typeOf (VStruct t fs) = Some t"
| "typeOf (VFunc t f) = Some t"

text \<open>
  A patch payload is a \<^verbatim>\<open>map[string]interface{}\<close> whose values are field values or
  payloads of nested structs. It is an association list with distinct keys; \<open>put\<close> is
  the assignment \<^verbatim>\<open>payload[k] = v\<close>.
\<close>

datatype pval = PVal gval | PMap "(string \<times> pval) list"

type_synonym payload = "(string \<times> pval) list"

fun put :: "'k \<Rightarrow> 'v \<Rightarrow> ('k \<times> 'v) list \<Rightarrow> ('k \<times> 'v) list" where
  "put k v [] = [(k, v)]"
| "put k v ((k', v') # m) = (if k = k' then (k, v) # m else (k', v') # put k v m)"

section \<open>The transport client and the entity\<close>

text \<open>
  Go's \<^verbatim>\<open>error\<close> values. \<open>Errorf\<close> carries the message of \<^verbatim>\<open>fmt.Errorf\<close>,
  \<open>CollectionError\<close> the \<^verbatim>\<open>Failures\<close> map of a \<^verbatim>\<open>common.CollectionError\<close>; the others
  name where an error of a collaborator comes from: the transport, \<^verbatim>\<open>io.ReadAll\<close>,
  \<^verbatim>\<open>Body.Close\<close> and \<^verbatim>\<open>encoding/json\<close> (a body that is no JSON; a value that does not
  fit, named by the kind of JSON value it is).
\<close>

datatype error =
    Errorf string
  | TransportError string
  | ReadError string
  | CloseError string
  | SyntaxError
  | UnmarshalTypeError string
  | CollectionError "(string \<times> error) list"

text \<open>
  A call either returns or panics. \<open>Return None\<close> is a nil error.
\<close>

datatype 'a outcome = Return 'a | Panic

text \<open>
  JSON values as the text states them: a number is the number its literal denotes, an
  object lists its members in the order of the text, repeated keys included.
\<close>

datatype json =
    JNull
  | JBool bool
  | JNum rat
  | JStr string
  | JArr "json list"
  | JObj "(string \<times> json) list"

text \<open>
  A response: \<open>Body\<close> is what \<^verbatim>\<open>io.ReadAll\<close> gives (\<open>Inl\<close> a read error, \<open>Inr None\<close>
  bytes that are not JSON, \<open>Inr (Some j)\<close> the text of \<open>j\<close>), \<open>Close\<close> is what
  \<^verbatim>\<open>Body.Close()\<close> returns, \<open>Header\<close> is the \<^verbatim>\<open>map[string][]string\<close> of headers.
\<close>

record response =
  Body :: "error + json option"
  Close :: "error option"
  Header :: "string \<Rightarrow> string list option"

type_synonym header = "(string \<times> string) list"

record client =
  clientGet :: "string \<Rightarrow> error + response"
  clientPatchWithHeaders :: "string \<Rightarrow> pval \<Rightarrow> header \<Rightarrow> error + response"
  clientPostWithHeaders :: "string \<Rightarrow> pval \<Rightarrow> header \<Rightarrow> error + response"

text \<open>The requests a call hands to the transport, in order.\<close>

datatype request =
    GetReq string
  | PatchReq string pval header
  | PostReq string pval header

record Entity =
  ODataID :: string
  ID :: string
  Name :: string
  client :: "client option"
  etag :: string
  stripEtagQuotes :: bool
  disableEtagMatch :: bool

definition SetClient :: "Entity \<Rightarrow> client option \<Rightarrow> Entity" where
  "SetClient e c = e\<lparr>client := c\<rparr>"

definition StripEtagQuotes :: "Entity \<Rightarrow> bool \<Rightarrow> Entity" where
  "StripEtagQuotes e b = e\<lparr>stripEtagQuotes := b\<rparr>"

definition DisableEtagMatch :: "Entity \<Rightarrow> bool \<Rightarrow> Entity" where
  "DisableEtagMatch e b = e\<lparr>disableEtagMatch := b\<rparr>"

text \<open>\<^verbatim>\<open>strings.Trim(s, cutset)\<close> for a cutset of ASCII characters.\<close>

definition Trim :: "string \<Rightarrow> string \<Rightarrow> string" where
  "Trim s cutset =
     rev (dropWhile (\<lambda>c. c \<in> set cutset) (rev (dropWhile (\<lambda>c. c \<in> set cutset) s)))"

abbreviation (input) dquote :: char where
  "dquote \<equiv> CHR 0x22"

text \<open>
  \<open>Patch\<close> and \<open>Post\<close> return the call's result, the entity as the call leaves it
  (the receiver is a pointer) and the requests made. A nil \<open>client\<close> makes the
  method call on it panic, after the header was built.
\<close>

definition Patch :: "Entity \<Rightarrow> string \<Rightarrow> pval \<Rightarrow> error option outcome \<times> Entity \<times> request list" where
  "Patch e uri payload =
     (let (e1, header) =
            (if etag e \<noteq> [] \<and> \<not> disableEtagMatch e then
               (let e' = (if stripEtagQuotes e then e\<lparr>etag := Trim (etag e) [dquote]\<rparr> else e)
                in (e', put ''If-Match'' (etag e') []))
             else (e, []))
      in case client e1 of
           None \<Rightarrow> (Panic, e1, [])
         | Some c \<Rightarrow>
             (case clientPatchWithHeaders c uri payload header of
                Inr resp \<Rightarrow> (Return (Close resp), e1, [PatchReq uri payload header])
              | Inl err \<Rightarrow> (Return (Some err), e1, [PatchReq uri payload header])))"

definition Post :: "Entity \<Rightarrow> string \<Rightarrow> pval \<Rightarrow> error option outcome \<times> Entity \<times> request list" where
  "Post e uri payload =
     (let (e1, header) =
            (if etag e \<noteq> [] \<and> \<not> disableEtagMatch e then
               (let e' = (if stripEtagQuotes e then e\<lparr>etag := Trim (etag e) [dquote]\<rparr> else e)
                in (e', put ''If-Match'' (etag e') []))
             else (e, []))
      in case client e1 of
           None \<Rightarrow> (Panic, e1, [])
         | Some c \<Rightarrow>
             (case clientPostWithHeaders c uri payload header of
                Inr resp \<Rightarrow> (Return (Close resp), e1, [PostReq uri payload header])
              | Inl err \<Rightarrow> (Return (Some err), e1, [PostReq uri payload header])))"


section \<open>The diff engine\<close>

text \<open>Go's \<^verbatim>\<open>==\<close> on floating-point numbers: a NaN equals nothing, itself included.\<close>

fun float_eq :: "gofloat \<Rightarrow> gofloat \<Rightarrow> bool" where
  "float_eq (FNum a) (FNum b) = (a = b)"
| "float_eq (FInf s) (FInf t) = (s = t)"
| "float_eq _ _ = False"

text \<open>
  \<^verbatim>\<open>reflect.DeepEqual\<close>, after \<^verbatim>\<open>deepValueEqual\<close> of the library: two nil interfaces are
  deeply equal and a nil interface equals nothing else; values of different types are
  never deeply equal. Slices are deeply equal when both are nil, or both are not and
  have the same length and either the same first element (the same address) or deeply
  equal elements; maps when both are nil, or both are not and have the same length and
  either are the same map or each key of the first maps to deeply equal values in
  both; pointers when they are equal or both point to deeply equal values; structs
  when their fields are, unexported ones included; funcs only when both are nil;
  everything else when \<^verbatim>\<open>==\<close> holds. Two values of one struct type have the same
  fields, so the fields are compared by position. The library also remembers the pairs
  of pointers, slices and maps it is comparing and takes a pair it meets again as
  equal; on values that are finite trees a pair met again was found equal before, so
  this bookkeeping does not change any result and is not part of the model.
\<close>

function DeepEqual :: "gval \<Rightarrow> gval \<Rightarrow> bool"
  and DeepEqual_list :: "gval list \<Rightarrow> gval list \<Rightarrow> bool"
  and DeepEqual_fields :: "(fieldinfo \<times> gval) list \<Rightarrow> (fieldinfo \<times> gval) list \<Rightarrow> bool"
  and DeepEqual_map :: "(string \<times> gval) list \<Rightarrow> (string \<times> gval) list \<Rightarrow> bool"
where
  "DeepEqual v1 v2 =
     (case (v1, v2) of
        (VNil, VNil) \<Rightarrow> True
      | (VBool s a, VBool t b) \<Rightarrow> s = t \<and> a = b
      | (VInt s a, VInt t b) \<Rightarrow> s = t \<and> a = b
      | (VFloat s a, VFloat t b) \<Rightarrow> s = t \<and> float_eq a b
      | (VString s a, VString t b) \<Rightarrow> s = t \<and> a = b
      | (VPtr s None, VPtr t None) \<Rightarrow> s = t
      | (VPtr s (Some (a, x)), VPtr t (Some (b, y))) \<Rightarrow> s = t \<and> (a = b \<or> DeepEqual x y)
      | (VSlice s None, VSlice t None) \<Rightarrow> s = t
      | (VSlice s (Some (a, xs)), VSlice t (Some (b, ys))) \<Rightarrow>
          s = t \<and> length xs = length ys \<and> (a = b \<or> DeepEqual_list xs ys)
      | (VMap s None, VMap t None) \<Rightarrow> s = t
      | (VMap s (Some (a, m)), VMap t (Some (b, n))) \<Rightarrow>
          s = t \<and> length m = length n \<and> (a = b \<or> DeepEqual_map m n)
      | (VStruct s fs, VStruct t gs) \<Rightarrow> s = t \<and> DeepEqual_fields fs gs
      | (VFunc s None, VFunc t None) \<Rightarrow> s = t
      | _ \<Rightarrow> False)"
| "DeepEqual_list [] ys = (ys = [])"
| "DeepEqual_list (x # xs) ys =
     (case ys of [] \<Rightarrow> False | y # ys' \<Rightarrow> DeepEqual x y \<and> DeepEqual_list xs ys')"
| "DeepEqual_fields [] gs = (gs = [])"
| "DeepEqual_fields ((f, x) # fs) gs =
     (case gs of [] \<Rightarrow> False
      | (g, y) # gs' \<Rightarrow> DeepEqual x y \<and> DeepEqual_fields fs gs')"
| "DeepEqual_map [] n = True"
| "DeepEqual_map ((k, x) # m) n =
     ((case map_of n k of None \<Rightarrow> False | Some y \<Rightarrow> DeepEqual x y) \<and> DeepEqual_map m n)"
  by pat_completeness auto
termination
  by (relation "measure (\<lambda>a. case a of
         Inl (Inl (x, y)) \<Rightarrow> size x
       | Inl (Inr (xs, ys)) \<Rightarrow> size_list size xs
       | Inr (Inl (fs, gs)) \<Rightarrow> size_list (size_prod (\<lambda>_. 0) size) fs
       | Inr (Inr (m, n)) \<Rightarrow> size_list (size_prod (\<lambda>_. 0) size) m)") auto

text \<open>\<^verbatim>\<open>reflect.TypeOf(v).Kind()\<close> of a value that is not the nil interface.\<close>

fun kind_of :: "gval \<Rightarrow> kind" where
  "kind_of VNil = KInterface"
| "kind_of (VBool _ _) = KBool"
| "kind_of (VInt _ _) = KInt"
| "kind_of (VFloat _ _) = KFloat"
| "kind_of (VString _ _) = KString"
| "kind_of (VPtr _ _) = KPtr"
| "kind_of (VSlice _ _) = KSlice"
| "kind_of (VMap _ _) = KMap"
| "kind_of (VStruct _ _) = KStruct"
| "kind_of (VFunc _ _) = KFunc"

text \<open>
  \<^verbatim>\<open>originalValue != currentValue\<close> on two \<^verbatim>\<open>interface{}\<close> values: values of different
  types differ, and so do a nil interface and a value; two values of one type are
  compared by \<^verbatim>\<open>==\<close>, pointers by address, and the comparison panics when the type is
  not comparable, as the type of a func, a slice or a map is, whether the values are nil
  or not. The diff engine reaches this comparison only when the original value is no
  slice, map or struct; the comparison of two structs of one type, field by field, is
  not needed for it and stands as a panic here.
\<close>

definition neq :: "gval \<Rightarrow> gval \<Rightarrow> bool outcome" where
  "neq x y =
     (if typeOf x \<noteq> typeOf y then Return True
      else
       (case (x, y) of
          (VNil, VNil) \<Rightarrow> Return False
        | (VBool s a, VBool t b) \<Rightarrow> Return (a \<noteq> b)
        | (VInt s a, VInt t b) \<Rightarrow> Return (a \<noteq> b)
        | (VFloat s a, VFloat t b) \<Rightarrow> Return (\<not> float_eq a b)
        | (VString s a, VString t b) \<Rightarrow> Return (a \<noteq> b)
        | (VPtr s p, VPtr t q) \<Rightarrow> Return (map_option fst p \<noteq> map_option fst q)
        | (VFunc s f, VFunc t g) \<Rightarrow> Panic
        | (VSlice s xs, VSlice t ys) \<Rightarrow> Panic
        | (VMap s m, VMap t n) \<Rightarrow> Panic
        | (VStruct s fs, VStruct t gs) \<Rightarrow> Panic
        | _ \<Rightarrow> Return True))"

text \<open>
  \<^verbatim>\<open>v.Field(i)\<close> panics (\<open>None\<close>) when \<open>v\<close> is no struct or has no field \<open>i\<close>;
  \<^verbatim>\<open>Interface()\<close> panics on a field that cannot be read. \<open>asValue\<close> is a field as the
  \<^verbatim>\<open>reflect.Value\<close> handed to the recursive call: a field of interface type is a Value
  of kind Interface, whatever it holds, and \<^verbatim>\<open>NumField\<close> panics on it.
\<close>

fun FieldAt :: "gval \<Rightarrow> nat \<Rightarrow> (fieldinfo \<times> gval) option" where
  "FieldAt (VStruct t fs) i = (if i < length fs then Some (fs ! i) else None)"
| "FieldAt _ i = None"

definition Interface :: "fieldinfo \<times> gval \<Rightarrow> gval option" where
  "Interface f = (if exported (fst f) then Some (snd f) else None)"

definition asValue :: "fieldinfo \<times> gval \<Rightarrow> gval" where
  "asValue f = (if fkind (fst f) = KInterface then VNil else snd f)"

text \<open>\<^verbatim>\<open>for k, v := range structPayload { payload[k] = v }\<close>\<close>

definition splicePayload :: "payload \<Rightarrow> payload \<Rightarrow> payload" where
  "splicePayload structPayload payload = foldl (\<lambda>p (k, v). put k v p) payload structPayload"

text \<open>
  \<open>getPatchPayloadFromUpdate\<close>: \<open>fieldLoop\<close> is the \<^verbatim>\<open>for\<close> loop over the fields of the
  original from index \<open>i\<close> on, with the payload built so far. The key of a field in the
  payload, \<open>fieldName\<close>, is the whole text of its \<^verbatim>\<open>json\<close> tag when the field has one and
  its Go name otherwise.
\<close>

function getPatchPayloadFromUpdate :: "gval \<Rightarrow> gval \<Rightarrow> payload outcome"
  and fieldLoop :: "(fieldinfo \<times> gval) list \<Rightarrow> gval \<Rightarrow> nat \<Rightarrow> payload \<Rightarrow> payload outcome"
where
  "getPatchPayloadFromUpdate originalEntity updatedEntity =
     (case originalEntity of
        VStruct t fs \<Rightarrow> fieldLoop fs updatedEntity 0 []
      | _ \<Rightarrow> Panic)"
| "fieldLoop [] updatedEntity i payload = Return payload"
| "fieldLoop (f # rest) updatedEntity i payload =
     (let field = fst f in
      if \<not> exported field then fieldLoop rest updatedEntity (Suc i) payload
      else if fkind field = KPtr then fieldLoop rest updatedEntity (Suc i) payload
      else if ftag field = ''-'' then fieldLoop rest updatedEntity (Suc i) payload
      else
        let fieldName = (if ftag field \<noteq> [] then ftag field else fname field);
            originalValue = snd f
        in case FieldAt updatedEntity i of
             None \<Rightarrow> Panic
           | Some u \<Rightarrow>
              (case Interface u of
                 None \<Rightarrow> Panic
               | Some currentValue \<Rightarrow>
                  if originalValue = VNil \<and> currentValue = VNil then
                    fieldLoop rest updatedEntity (Suc i) payload
                  else if originalValue = VNil then
                    fieldLoop rest updatedEntity (Suc i) (put fieldName (PVal currentValue) payload)
                  else if kind_of originalValue = KSlice \<or> kind_of originalValue = KMap then
                    fieldLoop rest updatedEntity (Suc i)
                      (if \<not> DeepEqual originalValue currentValue
                       then put fieldName (PVal currentValue) payload else payload)
                  else if kind_of originalValue = KStruct then
                    (case getPatchPayloadFromUpdate (asValue f) (asValue u) of
                       Panic \<Rightarrow> Panic
                     | Return structPayload \<Rightarrow>
                         fieldLoop rest updatedEntity (Suc i)
                           (if anonymous field then splicePayload structPayload payload
                            else if length structPayload \<noteq> 0
                              then put fieldName (PMap structPayload) payload
                            else payload))
                  else
                    (case neq originalValue currentValue of
                       Panic \<Rightarrow> Panic
                     | Return changed \<Rightarrow>
                         fieldLoop rest updatedEntity (Suc i)
                           (if changed then put fieldName (PVal currentValue) payload
                            else payload))))"
  by pat_completeness auto
termination
  by (relation "measure (\<lambda>a. case a of
         Inl (x, y) \<Rightarrow> size x
       | Inr (fs, u, i, p) \<Rightarrow> size_list (size_prod (\<lambda>_. 0) size) fs)")
     (auto simp: asValue_def split: if_splits)

section \<open>Update\<close>

text \<open>
  The inner loop of \<open>Update\<close> looks a field name up in \<open>allowedUpdates\<close>; the outer
  loop returns at the first field of the payload that is not found. Go visits the keys
  of a map in an order it does not specify, so the order of the visit is an argument
  of the model: \<open>order\<close> lists the keys of the payload as \<^verbatim>\<open>range\<close> yields them.
\<close>

fun found :: "string list \<Rightarrow> string \<Rightarrow> bool" where
  "found [] field = False"
| "found (name # names) field = (if name = field then True else found names field)"

fun firstReadOnly :: "string list \<Rightarrow> string list \<Rightarrow> string option" where
  "firstReadOnly [] allowedUpdates = None"
| "firstReadOnly (field # rest) allowedUpdates =
     (if \<not> found allowedUpdates field then Some field
      else firstReadOnly rest allowedUpdates)"

definition Update ::
  "Entity \<Rightarrow> gval \<Rightarrow> gval \<Rightarrow> string list \<Rightarrow> (payload \<Rightarrow> string list)
     \<Rightarrow> error option outcome \<times> Entity \<times> request list" where
  "Update e originalEntity updatedEntity allowedUpdates order =
     (case getPatchPayloadFromUpdate originalEntity updatedEntity of
        Panic \<Rightarrow> (Panic, e, [])
      | Return payload \<Rightarrow>
          (case firstReadOnly (order payload) allowedUpdates of
             Some field \<Rightarrow> (Return (Some (Errorf (field @ '' field is read only''))), e, [])
           | None \<Rightarrow>
               if length payload > 0 then Patch e (ODataID e) (PMap payload)
               else (Return None, e, [])))"

section \<open>Notions for the properties of the diff engine\<close>

text \<open>
  A field is visited when none of the three tests at the head of the loop skips it;
  \<open>fieldName\<close> is the key the loop writes for it. \<open>fieldStep\<close> is the body of the loop
  after these tests, for the original field \<open>f\<close> and the updated field \<open>u\<close>: a view
  of \<open>fieldLoop\<close> used in the proofs (lemma \<open>fieldLoop_visit\<close>).
\<close>

definition visited :: "fieldinfo \<Rightarrow> bool" where
  "visited field = (exported field \<and> fkind field \<noteq> KPtr \<and> ftag field \<noteq> ''-'')"

definition fieldName :: "fieldinfo \<Rightarrow> string" where
  "fieldName field = (if ftag field \<noteq> [] then ftag field else fname field)"

definition fieldStep :: "fieldinfo \<times> gval \<Rightarrow> fieldinfo \<times> gval \<Rightarrow> payload \<Rightarrow> payload outcome" where
  "fieldStep f u payload =
     (let originalValue = snd f; currentValue = snd u; name = fieldName (fst f) in
      if originalValue = VNil \<and> currentValue = VNil then Return payload
      else if originalValue = VNil then Return (put name (PVal currentValue) payload)
      else if kind_of originalValue = KSlice \<or> kind_of originalValue = KMap then
        Return (if \<not> DeepEqual originalValue currentValue
                then put name (PVal currentValue) payload else payload)
      else if kind_of originalValue = KStruct then
        (case getPatchPayloadFromUpdate (asValue f) (asValue u) of
           Panic \<Rightarrow> Panic
         | Return structPayload \<Rightarrow>
             Return (if anonymous (fst f) then splicePayload structPayload payload
                     else if length structPayload \<noteq> 0
                       then put name (PMap structPayload) payload
                     else payload))
      else
        (case neq originalValue currentValue of
           Panic \<Rightarrow> Panic
         | Return changed \<Rightarrow>
             Return (if changed then put name (PVal currentValue) payload else payload)))"

text \<open>
  A record is stable when no visited field holds a NaN or a func, no visited field of
  interface type holds a struct, and every record nested in a visited field is stable.
  What a visited slice or map holds does not matter.
\<close>

function stableRecord :: "gval \<Rightarrow> bool"
  and stableFields :: "(fieldinfo \<times> gval) list \<Rightarrow> bool"
where
  "stableRecord v = (case v of VStruct t fs \<Rightarrow> stableFields fs | _ \<Rightarrow> False)"
| "stableFields [] = True"
| "stableFields (f # rest) =
     ((if visited (fst f) then
         (case snd f of
            VFloat t x \<Rightarrow> float_eq x x
          | VFunc t g \<Rightarrow> False
          | VStruct t fs \<Rightarrow> fkind (fst f) \<noteq> KInterface \<and> stableRecord (snd f)
          | _ \<Rightarrow> True)
       else True)
      \<and> stableFields rest)"
  by pat_completeness auto
termination
  by (relation "measure (\<lambda>a. case a of
         Inl x \<Rightarrow> size x
       | Inr fs \<Rightarrow> size_list (size_prod (\<lambda>_. 0) size) fs)")
     (auto split: if_splits)

text \<open>
  \<open>ptrVariant A B\<close>: the records \<open>A\<close> and \<open>B\<close> have the same fields and differ at most in
  the values of fields whose declared type is a pointer, such a field being a field of
  the record itself or of a record that is the value of a field of struct type, at any
  depth. A pointer field of a record that sits in a slice, in a map or in a field of
  interface type is not of this sort: there the two records have to be the same.
\<close>

function ptrVariant :: "gval \<Rightarrow> gval \<Rightarrow> bool"
  and ptrVariantFields :: "(fieldinfo \<times> gval) list \<Rightarrow> (fieldinfo \<times> gval) list \<Rightarrow> bool"
where
  "ptrVariant v w =
     (case v of
        VStruct s fs \<Rightarrow> (case w of VStruct t gs \<Rightarrow> ptrVariantFields fs gs | _ \<Rightarrow> False)
      | _ \<Rightarrow> False)"
| "ptrVariantFields [] gs = (gs = [])"
| "ptrVariantFields (f # fs) gs =
     (case gs of
        [] \<Rightarrow> False
      | g # gs' \<Rightarrow>
          fst g = fst f \<and>
          (fkind (fst f) = KPtr \<or> snd g = snd f \<or>
           (fkind (fst f) = KStruct \<and> ptrVariant (snd f) (snd g))) \<and>
          ptrVariantFields fs gs')"
  by pat_completeness auto
termination
  by (relation "measure (\<lambda>a. case a of
         Inl (x, y) \<Rightarrow> size x
       | Inr (fs, gs) \<Rightarrow> size_list (size_prod (\<lambda>_. 0) size) fs)")
     (auto split: if_splits)

text \<open>
  The keys a field can write into the payload of its record: its \<open>fieldName\<close>, or, for
  an embedded struct, the keys its own fields can write.
\<close>

function mayWrite :: "fieldinfo \<times> gval \<Rightarrow> string list"
  and mayWriteFields :: "(fieldinfo \<times> gval) list \<Rightarrow> string list"
where
  "mayWrite f =
     (if \<not> visited (fst f) then []
      else case snd f of
             VStruct t fs \<Rightarrow> if anonymous (fst f) then mayWriteFields fs else [fieldName (fst f)]
           | _ \<Rightarrow> [fieldName (fst f)])"
| "mayWriteFields [] = []"
| "mayWriteFields (f # rest) = mayWrite f @ mayWriteFields rest"
  by pat_completeness auto
termination
  by (relation "measure (\<lambda>a. case a of
         Inl f \<Rightarrow> size (snd f)
       | Inr fs \<Rightarrow> size_list (size_prod (\<lambda>_. 0) size) fs)")
     (auto split: if_splits)

text \<open>The keys of a payload.\<close>

definition payloadKeys :: "('k \<times> 'v) list \<Rightarrow> 'k set" where
  "payloadKeys m = fst ` set m"

text \<open>
  A scalar is a bool, an integer, a string or a floating-point number that is no NaN:
  a value that \<^verbatim>\<open>==\<close> finds equal to itself and to nothing else of its type.
\<close>

fun scalar :: "gval \<Rightarrow> bool" where
  "scalar (VBool t b) = True"
| "scalar (VInt t i) = True"
| "scalar (VString t s) = True"
| "scalar (VFloat t x) = float_eq x x"
| "scalar _ = False"

section \<open>Numbers\<close>

text \<open>
  \<^verbatim>\<open>encoding/json\<close> reads a number into a \<^verbatim>\<open>float64\<close> with \<^verbatim>\<open>strconv.ParseFloat\<close>:
  the number is rounded to the nearest value with 53 significant bits and an exponent
  of at least \<open>-1074\<close>, ties to the even one; \<open>float64 x\<close> is \<open>None\<close> when the
  rounded value is \<open>2 ^ 1024\<close> or more, where the library reports that the value is
  out of range. \<open>ilog b n\<close> is the integer logarithm of \<open>n\<close> to the base \<open>b\<close>,
  \<open>floorLog b a\<close> the largest \<open>k\<close> with \<open>b ^ k \<le> a\<close> for a positive rational \<open>a\<close>.
  With \<open>a = m * 2 ^ e\<close> and \<open>m \<le> 2 ^ 53\<close> the value reaches \<open>2 ^ 1024\<close> exactly when
  \<open>971 < e\<close>, or \<open>e = 971\<close> and \<open>m = 2 ^ 53\<close>.
\<close>

function ilog :: "int \<Rightarrow> int \<Rightarrow> int" where
  "ilog b n = (if b < 2 \<or> n < b then 0 else 1 + ilog b (n div b))"
  by pat_completeness auto
termination
  by (relation "measure (\<lambda>(b, n). nat n)") (auto intro!: int_div_less_self)

declare ilog.simps [simp del]

definition pow :: "int \<Rightarrow> int \<Rightarrow> rat" where
  "pow b e = (if 0 \<le> e then of_int b ^ nat e else 1 / of_int b ^ nat (- e))"

definition floorLog :: "int \<Rightarrow> rat \<Rightarrow> int" where
  "floorLog b a = (if 1 \<le> a then ilog b \<lfloor>a\<rfloor> else - (ilog b (\<lceil>1 / a\<rceil> - 1) + 1))"

definition roundEven :: "rat \<Rightarrow> int" where
  "roundEven x =
     (let f = \<lfloor>x\<rfloor>; d = x - of_int f in
      if d < 1 / 2 then f else if 1 / 2 < d then f + 1 else if even f then f else f + 1)"

definition float64 :: "rat \<Rightarrow> rat option" where
  "float64 x =
     (if x = 0 then Some 0
      else let a = \<bar>x\<bar>;
               e = max (floorLog 2 a - 52) (- 1074);
               m = roundEven (a / pow 2 e)
           in if 971 < e \<or> (e = 971 \<and> 2 ^ 53 \<le> m) then None
              else Some (sgn x * (of_int m * pow 2 e)))"

text \<open>
  \<^verbatim>\<open>encoding/json\<close> writes a \<^verbatim>\<open>float64\<close> with \<^verbatim>\<open>strconv.AppendFloat(b, f, fmt, -1, 64)\<close>:
  the decimal with the fewest significant digits that \<^verbatim>\<open>ParseFloat\<close> reads back as
  \<open>f\<close>, the one nearest to \<open>f\<close> if there are several, and never more than 17 digits.
  \<open>shortest f\<close> is the number this decimal denotes; \<open>digits f n\<close> is the candidate
  with \<open>n\<close> significant digits for a positive \<open>f\<close>, if there is one. The decimal is
  written without fraction and exponent exactly when this number is an integer below
  \<open>10 ^ 21\<close>.
\<close>

definition digits :: "rat \<Rightarrow> nat \<Rightarrow> rat option" where
  "digits f n =
     (let u = pow 10 (floorLog 10 f - int n + 1);
          lo = of_int \<lfloor>f / u\<rfloor> * u;
          hi = of_int \<lceil>f / u\<rceil> * u;
          okLo = (float64 lo = Some f);
          okHi = (float64 hi = Some f)
      in if okLo \<and> (\<not> okHi \<or> f - lo \<le> hi - f) then Some lo
         else if okHi then Some hi else None)"

fun shortestFrom :: "rat \<Rightarrow> nat \<Rightarrow> nat \<Rightarrow> rat" where
  "shortestFrom f n 0 = f"
| "shortestFrom f n (Suc k) =
     (case digits f n of Some d \<Rightarrow> d | None \<Rightarrow> shortestFrom f (Suc n) k)"

definition shortest :: "rat \<Rightarrow> rat" where
  "shortest f = (if f = 0 then 0 else sgn f * shortestFrom \<bar>f\<bar> 1 17)"

text \<open>
  Two things Go leaves to the implementation: the order in which \<^verbatim>\<open>range\<close> visits a
  map, and the result of the conversion \<^verbatim>\<open>int(x)\<close> of a \<^verbatim>\<open>float64\<close> whose integer part
  does not fit. Both are arguments of the model, kept in a \<open>runtime\<close>: \<open>rangeOrder\<close>
  yields the values of a map in the order of the visit, \<open>intOutOfRange\<close> the result of
  the conversion. \<^verbatim>\<open>int\<close> has 64 bits. Within the range, \<^verbatim>\<open>int(x)\<close> drops the
  fraction (\<open>goInt\<close>).
\<close>

record runtime =
  rangeOrder :: "(string \<times> json) list \<Rightarrow> json list"
  intOutOfRange :: "rat \<Rightarrow> int"

definition goInt :: "runtime \<Rightarrow> rat \<Rightarrow> int" where
  "goInt rt x =
     (let i = (if 0 \<le> x then \<lfloor>x\<rfloor> else \<lceil>x\<rceil>) in
      if - (2 ^ 63) \<le> i \<and> i < 2 ^ 63 then i else intOutOfRange rt x)"

section \<open>Decoding JSON\<close>

text \<open>
  \<^verbatim>\<open>encoding/json\<close> is a collaborator of the entity operations. A JSON value decoded
  into an \<^verbatim>\<open>interface{}\<close> is nil, a \<^verbatim>\<open>bool\<close>, a \<^verbatim>\<open>float64\<close>, a \<^verbatim>\<open>string\<close>, a
  \<^verbatim>\<open>[]interface{}\<close> or a \<^verbatim>\<open>map[string]interface{}\<close>; it is modelled by the JSON value
  \<open>anyValue v\<close>, in which every number is a \<^verbatim>\<open>float64\<close> and every object has one entry
  for each key, the last one of the text (\<open>lastWins\<close>). A number out of the range of
  \<^verbatim>\<open>float64\<close> is an error (\<open>overflows\<close>), decoding goes on with nil in its place.
  \<open>jsonKind\<close> is the word by which a type error names the JSON value that did not fit;
  the rest of Go's \<^verbatim>\<open>UnmarshalTypeError\<close> (the literal of a number, the Go type, the
  offset, the names of struct and field) is not kept.
\<close>

definition lastWins :: "(string \<times> json) list \<Rightarrow> (string \<times> json) list" where
  "lastWins kvs = foldl (\<lambda>m kv. put (fst kv) (snd kv) m) [] kvs"

fun jsonKind :: "json \<Rightarrow> string" where
  "jsonKind JNull = ''null''"
| "jsonKind (JBool b) = ''bool''"
| "jsonKind (JNum r) = ''number''"
| "jsonKind (JStr s) = ''string''"
| "jsonKind (JArr xs) = ''array''"
| "jsonKind (JObj kvs) = ''object''"

fun overflows :: "json \<Rightarrow> bool" where
  "overflows (JNum r) = (float64 r = None)"
| "overflows (JArr xs) = list_ex overflows xs"
| "overflows (JObj kvs) = list_ex overflows (map snd kvs)"
| "overflows _ = False"

fun anyValue :: "json \<Rightarrow> json" where
  "anyValue (JNum r) = (case float64 r of Some f \<Rightarrow> JNum f | None \<Rightarrow> JNull)"
| "anyValue (JArr xs) = JArr (map anyValue xs)"
| "anyValue (JObj kvs) = JObj (lastWins (zip (map fst kvs) (map anyValue (map snd kvs))))"
| "anyValue v = v"

text \<open>
  Decoding into a struct is modelled for flat structs: a shape lists the wire name and
  the type of each field, a record maps wire names to values. A key selects the field
  of that exact name, or else the first field whose name equals it when the case of
  ASCII letters is ignored (Go folds two more runes, the Kelvin sign and the long s,
  which are left out). A \<^verbatim>\<open>null\<close> leaves a string, bool or number as it is and clears
  an \<^verbatim>\<open>interface{}\<close> or a slice. A value that does not fit its field leaves the field
  unchanged; an array is decoded element by element into a slice, an element that does
  not fit stays zero. Decoding goes on after an error and returns the first one at the
  end. \<open>store t v old\<close> is the new value of a field of type \<open>t\<close> that held \<open>old\<close>, with
  the error if there is one. An \<^verbatim>\<open>int\<close> field takes a number only when its text is an
  integer without fraction or exponent; the texts decoded here are written by
  \<open>Marshal\<close> below, where that is the case for every integer in the range of
  \<^verbatim>\<open>int\<close>.
\<close>

datatype ftype = TString | TBool | TInt | TFloat | TAny | TList ftype

type_synonym shape = "(string \<times> ftype) list"
type_synonym jrecord = "(string \<times> json) list"

fun zeroValue :: "ftype \<Rightarrow> json" where
  "zeroValue TString = JStr []"
| "zeroValue TBool = JBool False"
| "zeroValue TInt = JNum 0"
| "zeroValue TFloat = JNum 0"
| "zeroValue TAny = JNull"
| "zeroValue (TList t) = JNull"

definition isInt64 :: "rat \<Rightarrow> bool" where
  "isInt64 r = (of_int \<lfloor>r\<rfloor> = r \<and> - (2 ^ 63) \<le> r \<and> r < 2 ^ 63)"

fun firstError :: "string option list \<Rightarrow> string option" where
  "firstError [] = None"
| "firstError (None # es) = firstError es"
| "firstError (Some e # es) = Some e"

fun store :: "ftype \<Rightarrow> json \<Rightarrow> json \<Rightarrow> json \<times> string option" where
  "store t v old =
     (case v of
        JNull \<Rightarrow> (case t of TAny \<Rightarrow> (JNull, None) | TList t' \<Rightarrow> (JNull, None) | _ \<Rightarrow> (old, None))
      | _ \<Rightarrow>
        (case t of
           TString \<Rightarrow> (case v of JStr s \<Rightarrow> (v, None) | _ \<Rightarrow> (old, Some (jsonKind v)))
         | TBool \<Rightarrow> (case v of JBool b \<Rightarrow> (v, None) | _ \<Rightarrow> (old, Some (jsonKind v)))
         | TInt \<Rightarrow>
             (case v of
                JNum r \<Rightarrow> if isInt64 r then (v, None) else (old, Some ''number'')
              | _ \<Rightarrow> (old, Some (jsonKind v)))
         | TFloat \<Rightarrow>
             (case v of
                JNum r \<Rightarrow> (case float64 r of Some f \<Rightarrow> (JNum f, None) | None \<Rightarrow> (old, Some ''number''))
              | _ \<Rightarrow> (old, Some (jsonKind v)))
         | TAny \<Rightarrow>
             (case v of
                JNum r \<Rightarrow> (case float64 r of Some f \<Rightarrow> (JNum f, None) | None \<Rightarrow> (old, Some ''number''))
              | _ \<Rightarrow> (anyValue v, if overflows v then Some ''number'' else None))
         | TList t' \<Rightarrow>
             (case v of
                JArr xs \<Rightarrow>
                  (JArr (map (\<lambda>x. fst (store t' x (zeroValue t'))) xs),
                   firstError (map (\<lambda>x. snd (store t' x (zeroValue t'))) xs))
              | _ \<Rightarrow> (old, Some (jsonKind v)))))"

definition toUpper :: "char \<Rightarrow> char" where
  "toUpper c =
     (case map_of (zip ''abcdefghijklmnopqrstuvwxyz'' ''ABCDEFGHIJKLMNOPQRSTUVWXYZ'') c of
        Some u \<Rightarrow> u
      | None \<Rightarrow> c)"

definition equalFold :: "string \<Rightarrow> string \<Rightarrow> bool" where
  "equalFold s t = (map toUpper s = map toUpper t)"

definition findField :: "shape \<Rightarrow> string \<Rightarrow> (string \<times> ftype) option" where
  "findField fs key =
     (case find (\<lambda>f. fst f = key) fs of
        Some f \<Rightarrow> Some f
      | None \<Rightarrow> find (\<lambda>f. equalFold (fst f) key) fs)"

fun decodeEntries :: "shape \<Rightarrow> (string \<times> json) list \<Rightarrow> jrecord \<Rightarrow> error option \<Rightarrow> error option \<times> jrecord" where
  "decodeEntries fs [] r err = (err, r)"
| "decodeEntries fs (kv # kvs) r err =
     (case findField fs (fst kv) of
        None \<Rightarrow> decodeEntries fs kvs r err
      | Some f \<Rightarrow>
          (case store (snd f) (snd kv) (case map_of r (fst f) of Some old \<Rightarrow> old | None \<Rightarrow> zeroValue (snd f)) of
             (v, Some e) \<Rightarrow>
               decodeEntries fs kvs (put (fst f) v r) (if err = None then Some (UnmarshalTypeError e) else err)
           | (v, None) \<Rightarrow> decodeEntries fs kvs (put (fst f) v r) err))"

definition Unmarshal :: "shape \<Rightarrow> json \<Rightarrow> jrecord \<Rightarrow> error option \<times> jrecord" where
  "Unmarshal fs j r =
     (case j of
        JNull \<Rightarrow> (None, r)
      | JObj kvs \<Rightarrow> decodeEntries fs kvs r None
      | _ \<Rightarrow> (Some (UnmarshalTypeError (jsonKind j)), r))"

definition zeroRecord :: "shape \<Rightarrow> jrecord" where
  "zeroRecord fs = map (\<lambda>f. (fst f, zeroValue (snd f))) fs"

section \<open>Get\<close>

text \<open>\<^verbatim>\<open>strings.HasPrefix\<close>, \<^verbatim>\<open>strings.Contains\<close> and the decimal form
  \<^verbatim>\<open>fmt.Sprintf("%v", i)\<close> of an \<^verbatim>\<open>int\<close>.\<close>

fun HasPrefix :: "string \<Rightarrow> string \<Rightarrow> bool" where
  "HasPrefix s [] = True"
| "HasPrefix [] (p # ps) = False"
| "HasPrefix (c # s) (p # ps) = (c = p \<and> HasPrefix s ps)"

fun Contains :: "string \<Rightarrow> string \<Rightarrow> bool" where
  "Contains [] substr = (substr = [])"
| "Contains (c # s) substr = (HasPrefix (c # s) substr \<or> Contains s substr)"

function natToString :: "nat \<Rightarrow> string" where
  "natToString n =
     (if n < 10 then [''0123456789'' ! n]
      else natToString (n div 10) @ [''0123456789'' ! (n mod 10)])"
  by pat_completeness auto
termination
  by (relation "measure id") auto

declare natToString.simps [simp del]

definition Itoa :: "int \<Rightarrow> string" where
  "Itoa i = (if i < 0 then CHR ''-'' # natToString (nat (- i)) else natToString (nat i))"

text \<open>
  The first version of \<open>Get\<close> in \<^verbatim>\<open>entity.go\<close> (lines 91 to 222) decodes the body
  into \<^verbatim>\<open>check\<close>, a \<^verbatim>\<open>map[string]interface{}\<close>, rewrites some of its entries
  depending on the \<^verbatim>\<open>@odata.id\<close> of the body, encodes it again and decodes that into the
  payload. The helpers below are the rewriting steps:
  \<^item> \<open>floatToString rt m key\<close> is
    \<^verbatim>\<open>if x, ok := m[key].(float64); ok { m[key] = fmt.Sprintf("%v", int(x)) }\<close>;
  \<^item> \<open>wrapInSlice m key\<close> is
    \<^verbatim>\<open>if x, ok := m[key].(map[string]interface{}); ok { m[key] = []map[string]interface{}{x} }\<close>;
  \<^item> \<open>stringSlice\<close> collects the strings among the values of \<^verbatim>\<open>Links.Volumes\<close>, in the
    order in which \<^verbatim>\<open>range\<close> visits the map; a nil slice is encoded as \<^verbatim>\<open>null\<close>.
  The block for \<^verbatim>\<open>/redfish/v1/Systens/1/Storages/\<close> asserts that
  \<^verbatim>\<open>check["StorageControllers"]\<close> is a \<^verbatim>\<open>[]map[string]interface{}\<close>; a decoded array is
  a \<^verbatim>\<open>[]interface{}\<close>, the assertion fails for every body and the block does nothing,
  so \<open>normalize\<close> has no step for it.
\<close>

definition floatToString :: "runtime \<Rightarrow> (string \<times> json) list \<Rightarrow> string \<Rightarrow> (string \<times> json) list" where
  "floatToString rt m key =
     (case map_of m key of
        Some (JNum x) \<Rightarrow> put key (JStr (Itoa (goInt rt x))) m
      | _ \<Rightarrow> m)"

definition wrapInSlice :: "(string \<times> json) list \<Rightarrow> string \<Rightarrow> (string \<times> json) list" where
  "wrapInSlice m key =
     (case map_of m key of
        Some (JObj x) \<Rightarrow> put key (JArr [JObj x]) m
      | _ \<Rightarrow> m)"

definition stringSlice :: "json list \<Rightarrow> json" where
  "stringSlice vs =
     (let sliceData = List.map_filter (\<lambda>v. case v of JStr oid \<Rightarrow> Some oid | _ \<Rightarrow> None) vs
      in if sliceData = [] then JNull else JArr (map JStr sliceData))"

definition checkDrives :: "runtime \<Rightarrow> (string \<times> json) list \<Rightarrow> (string \<times> json) list" where
  "checkDrives rt check =
     (let check1 = floatToString rt check ''Id'' in
      case map_of check1 ''Links'' of
        Some (JObj links) \<Rightarrow>
          (case map_of links ''Volumes'' of
             Some (JObj volumes) \<Rightarrow>
               put ''Links'' (JObj (put ''Volumes'' (stringSlice (rangeOrder rt volumes)) links)) check1
           | _ \<Rightarrow> check1)
      | _ \<Rightarrow> check1)"

definition checkMemory :: "runtime \<Rightarrow> (string \<times> json) list \<Rightarrow> (string \<times> json) list" where
  "checkMemory rt check =
     (case map_of check ''MemoryLocation'' of
        Some (JObj memLocation) \<Rightarrow>
          put ''MemoryLocation''
            (JObj (floatToString rt (floatToString rt (floatToString rt memLocation ''Socket'')
                     ''Channel'') ''Slot''))
            check
      | _ \<Rightarrow> check)"

definition checkManager :: "(string \<times> json) list \<Rightarrow> (string \<times> json) list" where
  "checkManager check =
     (case map_of check ''Links'' of
        Some (JObj links) \<Rightarrow>
          put ''Links''
            (JObj (wrapInSlice (wrapInSlice (wrapInSlice links ''ManagerForChassis'')
                     ''ManagerInChassis'') ''ManagerForServers''))
            check
      | _ \<Rightarrow> check)"

definition normalize :: "runtime \<Rightarrow> (string \<times> json) list \<Rightarrow> (string \<times> json) list" where
  "normalize rt check =
     (case map_of check ''@odata.id'' of
        Some (JStr odataId) \<Rightarrow>
          (let c1 = (if Contains odataId ''/redfish/v1/Systems/1/Processors/''
                     then floatToString rt check ''Socket'' else check);
               c2 = (if Contains odataId ''/redfish/v1/Chassis/1/Drives/''
                     then checkDrives rt c1 else c1);
               c3 = (if Contains odataId ''/redfish/v1/Chassis/1/PCIeDevices/''
                     then floatToString rt c2 ''Id'' else c2);
               c4 = (if Contains odataId ''/redfish/v1/Systems/1/Memory/''
                     then checkMemory rt c3 else c3);
               c5 = (if Contains odataId ''/redfish/v1/Chassis/1/NetworkAdapters/''
                     then wrapInSlice c4 ''Controllers'' else c4);
               c6 = (if odataId = ''/redfish/v1/Managers/1'' then checkManager c5 else c5)
           in c6)
      | _ \<Rightarrow> check)"

text \<open>
  \<^verbatim>\<open>json.Marshal\<close> writes the keys of every map in increasing order and every number as
  its shortest decimal; \<open>marshalValue v\<close> is the JSON value of the text written for
  \<open>v\<close>. A nil map is \<^verbatim>\<open>null\<close>. Nothing in \<^verbatim>\<open>check\<close> makes the encoding fail.
\<close>

fun marshalValue :: "json \<Rightarrow> json" where
  "marshalValue (JNum f) = JNum (shortest f)"
| "marshalValue (JArr xs) = JArr (map marshalValue xs)"
| "marshalValue (JObj kvs) = JObj (sort_key fst (zip (map fst kvs) (map marshalValue (map snd kvs))))"
| "marshalValue v = v"

definition Marshal :: "(string \<times> json) list option \<Rightarrow> json" where
  "Marshal check = (case check of None \<Rightarrow> JNull | Some m \<Rightarrow> marshalValue (JObj m))"

text \<open>
  \<open>Get\<close> returns the result, the entity and the payload as the call leaves them and
  the requests made. The payload is an \<^verbatim>\<open>interface{}\<close>: \<open>unmarshal\<close> is
  \<^verbatim>\<open>json.Unmarshal(_, &payload)\<close> for the value behind it. A nil client makes the call
  panic, and so does a header map whose \<^verbatim>\<open>Etag\<close> entry is an empty, non-nil slice. The
  receiver and the payload are separate values here; \<open>GetDataStorageLineOfService\<close>
  below puts them together. \<open>readCheck\<close> is \<^verbatim>\<open>io.ReadAll\<close> followed by
  \<^verbatim>\<open>json.Unmarshal(data, &check)\<close>: a body that is \<^verbatim>\<open>null\<close> leaves the map nil, a body
  that is no object is an error, and so is a body with a number out of the range of
  \<^verbatim>\<open>float64\<close>; \<open>checkOf m\<close> is the map decoded from the members \<open>m\<close> of an object.
  \<open>saveEtag\<close> is the end of the function, from the test of the \<^verbatim>\<open>Etag\<close> header on.
\<close>

definition checkOf :: "(string \<times> json) list \<Rightarrow> (string \<times> json) list" where
  "checkOf m = lastWins (zip (map fst m) (map anyValue (map snd m)))"

definition readCheck :: "response \<Rightarrow> error + (string \<times> json) list option" where
  "readCheck resp =
     (case Body resp of
        Inl err \<Rightarrow> Inl err
      | Inr None \<Rightarrow> Inl SyntaxError
      | Inr (Some data) \<Rightarrow>
          (case data of
             JNull \<Rightarrow> Inr None
           | JObj m \<Rightarrow>
               if overflows data then Inl (UnmarshalTypeError ''number'')
               else Inr (Some (checkOf m))
           | _ \<Rightarrow> Inl (UnmarshalTypeError (jsonKind data))))"

definition saveEtag :: "Entity \<Rightarrow> client \<Rightarrow> response \<Rightarrow> error option outcome \<times> Entity" where
  "saveEtag e cl resp =
     (case Header resp ''Etag'' of
        None \<Rightarrow> (Return None, SetClient e (Some cl))
      | Some [] \<Rightarrow> (Panic, e)
      | Some (t # ts) \<Rightarrow> (Return None, SetClient (e\<lparr>etag := t\<rparr>) (Some cl)))"

definition Get ::
  "(json \<Rightarrow> 'p \<Rightarrow> error option \<times> 'p) \<Rightarrow> runtime
     \<Rightarrow> Entity \<Rightarrow> client option \<Rightarrow> string \<Rightarrow> 'p
     \<Rightarrow> error option outcome \<times> Entity \<times> 'p \<times> request list" where
  "Get unmarshal rt e c uri payload =
     (case c of
        None \<Rightarrow> (Panic, e, payload, [])
      | Some cl \<Rightarrow>
         (case clientGet cl uri of
            Inl err \<Rightarrow> (Return (Some err), e, payload, [GetReq uri])
          | Inr resp \<Rightarrow>
             (case readCheck resp of
                Inl err \<Rightarrow> (Return (Some err), e, payload, [GetReq uri])
              | Inr check \<Rightarrow>
                 (case unmarshal (Marshal (map_option (normalize rt) check)) payload of
                    (Some err, payload') \<Rightarrow> (Return (Some err), e, payload', [GetReq uri])
                  | (None, payload') \<Rightarrow>
                      (fst (saveEtag e cl resp), snd (saveEtag e cl resp), payload',
                       [GetReq uri])))))"

text \<open>
  The second version of \<open>Get\<close> in \<^verbatim>\<open>entity.go\<close> (lines 434 to 476) decodes the body
  into \<^verbatim>\<open>checkStruct\<close>, whose only field is \<^verbatim>\<open>ID interface{}\<close> with the tag \<^verbatim>\<open>id\<close>:
  each key that is \<^verbatim>\<open>id\<close> up to the case of its letters stores its value there, the last
  one in the body wins (\<open>lastFold\<close>), every other key is dropped without being
  decoded. The type switch then asks for an \<^verbatim>\<open>int\<close>; \<^verbatim>\<open>encoding/json\<close> decodes into an
  \<^verbatim>\<open>interface{}\<close> only nil, \<^verbatim>\<open>bool\<close>, \<^verbatim>\<open>float64\<close>, \<^verbatim>\<open>string\<close>, \<^verbatim>\<open>[]interface{}\<close> and
  \<^verbatim>\<open>map[string]interface{}\<close>, so no decoded value is an \<^verbatim>\<open>int\<close> (\<open>asInt\<close>).
\<close>

definition asInt :: "json \<Rightarrow> int option" where
  "asInt v = None"

fun lastFold :: "string \<Rightarrow> (string \<times> json) list \<Rightarrow> json \<Rightarrow> json" where
  "lastFold name [] v = v"
| "lastFold name (kv # kvs) v =
     lastFold name kvs (if fst kv = name \<or> equalFold name (fst kv) then snd kv else v)"

definition readCheckStruct :: "response \<Rightarrow> error + json" where
  "readCheckStruct resp =
     (case Body resp of
        Inl err \<Rightarrow> Inl err
      | Inr None \<Rightarrow> Inl SyntaxError
      | Inr (Some data) \<Rightarrow>
          (case data of
             JNull \<Rightarrow> Inr JNull
           | JObj m \<Rightarrow>
               if list_ex overflows (map snd (filter (\<lambda>kv. fst kv = ''id'' \<or> equalFold ''id'' (fst kv)) m))
               then Inl (UnmarshalTypeError ''number'')
               else Inr (anyValue (lastFold ''id'' m JNull))
           | _ \<Rightarrow> Inl (UnmarshalTypeError (jsonKind data))))"

definition Get2 ::
  "(json \<Rightarrow> 'p \<Rightarrow> error option \<times> 'p)
     \<Rightarrow> Entity \<Rightarrow> client option \<Rightarrow> string \<Rightarrow> 'p
     \<Rightarrow> error option outcome \<times> Entity \<times> 'p \<times> request list" where
  "Get2 unmarshal e c uri payload =
     (case c of
        None \<Rightarrow> (Panic, e, payload, [])
      | Some cl \<Rightarrow>
         (case clientGet cl uri of
            Inl err \<Rightarrow> (Return (Some err), e, payload, [GetReq uri])
          | Inr resp \<Rightarrow>
             (case readCheckStruct resp of
                Inl err \<Rightarrow> (Return (Some err), e, payload, [GetReq uri])
              | Inr checkID \<Rightarrow>
                 (case unmarshal
                         (JObj [(''id'', marshalValue (case asInt checkID of
                                                         Some v \<Rightarrow> JStr (Itoa v)
                                                       | None \<Rightarrow> checkID))])
                         payload of
                    (Some err, payload') \<Rightarrow> (Return (Some err), e, payload', [GetReq uri])
                  | (None, payload') \<Rightarrow>
                      (fst (saveEtag e cl resp), snd (saveEtag e cl resp), payload',
                       [GetReq uri])))))"

text \<open>What \<open>floatToString\<close> makes of the entry at its key.\<close>

definition idToString :: "runtime \<Rightarrow> json option \<Rightarrow> json option" where
  "idToString rt v = (case v of Some (JNum x) \<Rightarrow> Some (JStr (Itoa (goInt rt x))) | _ \<Rightarrow> v)"

section \<open>The collection retriever\<close>

text \<open>
  A \<^verbatim>\<open>DataStorageLineOfService\<close> is its embedded entity together with its decoded
  fields, keyed by wire name. Its \<^verbatim>\<open>UnmarshalJSON\<close> decodes into a fresh value and
  assigns the whole struct only when that succeeds, so the unexported fields of the
  entity are zero afterwards.
\<close>

type_synonym DataStorageLineOfService = "Entity \<times> jrecord"

definition shapeDataStorageLineOfService :: shape where
  "shapeDataStorageLineOfService =
     [(''@odata.id'', TString), (''Id'', TString), (''Name'', TString),
      (''@odata.context'', TString), (''@odata.type'', TString),
      (''AccessCapabilities'', TList TString), (''Description'', TString),
      (''IsSpaceEfficient'', TBool), (''Oem'', TString), (''ProvisioningPolicy'', TString),
      (''RecoverableCapacitySourceCount'', TInt), (''RecoveryTimeObjectives'', TString)]"

definition stringField :: "jrecord \<Rightarrow> string \<Rightarrow> string" where
  "stringField r key = (case map_of r key of Some (JStr s) \<Rightarrow> s | _ \<Rightarrow> [])"

definition newEntity :: Entity where
  "newEntity =
     \<lparr>ODataID = [], ID = [], Name = [], client = None, etag = [],
      stripEtagQuotes = False, disableEtagMatch = False\<rparr>"

definition UnmarshalJSON ::
  "json \<Rightarrow> DataStorageLineOfService \<Rightarrow> error option \<times> DataStorageLineOfService" where
  "UnmarshalJSON b datastoragelineofservice =
     (case b of
        JNull \<Rightarrow> (None, datastoragelineofservice)
      | _ \<Rightarrow>
        (case Unmarshal shapeDataStorageLineOfService b (zeroRecord shapeDataStorageLineOfService) of
           (Some err, t) \<Rightarrow> (Some err, datastoragelineofservice)
         | (None, t) \<Rightarrow>
             (None,
              (newEntity\<lparr>ODataID := stringField t ''@odata.id'', ID := stringField t ''Id'',
                          Name := stringField t ''Name''\<rparr>, t))))"

text \<open>
  \<open>GetDataStorageLineOfService\<close> calls \<open>Get\<close> on the entity embedded in a zero value,
  with the value itself as payload: what \<open>Get\<close> writes to its receiver after the
  decoding lands in the decoded value.
\<close>

definition GetDataStorageLineOfService ::
  "runtime \<Rightarrow> client option \<Rightarrow> string
     \<Rightarrow> (DataStorageLineOfService \<times> error option) outcome" where
  "GetDataStorageLineOfService rt c uri =
     (case Get UnmarshalJSON rt newEntity c uri
             (newEntity, zeroRecord shapeDataStorageLineOfService) of
        (Panic, e, d, reqs) \<Rightarrow> Panic
      | (Return err, e, d, reqs) \<Rightarrow>
          Return (((fst d)\<lparr>etag := etag e, client := client e\<rparr>, snd d), err))"

record GetResult =
  Item :: DataStorageLineOfService
  Link :: string
  Error :: "error option"

text \<open>
  The loop \<^verbatim>\<open>for r := range ch\<close> over the results in the order they arrive, with the
  result list and the \<^verbatim>\<open>Failures\<close> map built so far.
\<close>

fun rangeCh ::
  "GetResult list \<Rightarrow> DataStorageLineOfService list \<Rightarrow> (string \<times> error) list
     \<Rightarrow> DataStorageLineOfService list \<times> (string \<times> error) list" where
  "rangeCh [] result failures = (result, failures)"
| "rangeCh (r # rs) result failures =
     (case Error r of
        Some err \<Rightarrow> rangeCh rs result (put (Link r) err failures)
      | None \<Rightarrow> rangeCh rs (result @ [Item r]) failures)"

text \<open>The closure \<^verbatim>\<open>get\<close> run on each link; a panic of one fetch is a panic of the call.\<close>

fun getAll ::
  "runtime \<Rightarrow> client option \<Rightarrow> string list \<Rightarrow> GetResult list outcome" where
  "getAll rt c [] = Return []"
| "getAll rt c (link # links) =
     (case GetDataStorageLineOfService rt c link of
        Panic \<Rightarrow> Panic
      | Return (datastoragelineofservice, err) \<Rightarrow>
          (case getAll rt c links of
             Panic \<Rightarrow> Panic
           | Return rs \<Rightarrow>
               Return (\<lparr>Item = datastoragelineofservice, Link = link, Error = err\<rparr> # rs)))"

text \<open>
  Modelled from the spec: \<^verbatim>\<open>common.NewCollectionError\<close> is not among the sources. After
  the spec, the aggregate error carries a map from failing link to error, which the
  caller fills; a new one has no entry.
\<close>

definition NewCollectionError :: "(string \<times> error) list" where
  [simp]: "NewCollectionError = []"

text \<open>
  Modelled from the spec: \<^verbatim>\<open>CollectionError.Empty\<close> is not among the sources. After the
  spec, the call reports success when no failure was recorded: the aggregate error is
  empty when its map has no entry.
\<close>

definition Empty :: "(string \<times> error) list \<Rightarrow> bool" where
  [simp]: "Empty failures = (failures = [])"

text \<open>
  \<^verbatim>\<open>common.CollectList\<close> is not among the sources either, and the model takes it as an
  argument: \<open>CollectList c link\<close> is the list of member links on which the walk runs
  \<^verbatim>\<open>get\<close>, each once and in a task of its own, and the error the walk returns once every
  fetch has reported. The fetches report in any order: \<open>arrival\<close> is the argument that
  puts the member links in the order their results reach the channel. The goroutine of
  the walk writes its error into \<^verbatim>\<open>Failures\<close> without synchronisation; the model takes
  this write after the writes of the loop.
\<close>

definition ListReferencedDataStorageLineOfServices ::
  "(client option \<Rightarrow> string \<Rightarrow> string list \<times> error option) \<Rightarrow> (string list \<Rightarrow> string list)
     \<Rightarrow> runtime \<Rightarrow> client option \<Rightarrow> string
     \<Rightarrow> (DataStorageLineOfService list \<times> error option) outcome" where
  "ListReferencedDataStorageLineOfServices CollectList arrival rt c link =
     (if link = [] then Return ([], None)
      else
        (case CollectList c link of
           (members, err) \<Rightarrow>
             (case getAll rt c (arrival members) of
                Panic \<Rightarrow> Panic
              | Return rs \<Rightarrow>
                  (case rangeCh rs [] NewCollectionError of
                     (result, failures) \<Rightarrow>
                       (let collectionError =
                              (case err of Some err' \<Rightarrow> put link err' failures | None \<Rightarrow> failures)
                        in if Empty collectionError then Return (result, None)
                           else Return (result, Some (CollectionError collectionError)))))))"

text \<open>
  For the properties of the retriever: a fetch fails when it returns an error,
  \<open>fetchedItem\<close> is the value a fetch returns, and \<open>noteFailure\<close> is the effect of one
  received result on the \<^verbatim>\<open>Failures\<close> map.
\<close>

definition fetchFails :: "runtime \<Rightarrow> client option \<Rightarrow> string \<Rightarrow> bool" where
  "fetchFails rt c link =
     (case GetDataStorageLineOfService rt c link of
        Return (d, Some err) \<Rightarrow> True
      | _ \<Rightarrow> False)"

definition noteFailure :: "GetResult \<Rightarrow> (string \<times> error) list \<Rightarrow> (string \<times> error) list" where
  "noteFailure r f = (case Error r of Some err \<Rightarrow> put (Link r) err f | None \<Rightarrow> f)"

definition fetchedItem :: "runtime \<Rightarrow> client option \<Rightarrow> string \<Rightarrow> DataStorageLineOfService" where
  "fetchedItem rt c link =
     (case GetDataStorageLineOfService rt c link of
        Return (d, err) \<Rightarrow> d
      | Panic \<Rightarrow> (newEntity, []))"

section \<open>Transport stubs and example records\<close>

text \<open>
  A transport stub answers every request the same way; the closed examples below
  run the operations against it. \<open>bodyClient j h\<close> answers each GET with the body \<open>j\<close>
  and the headers \<open>h\<close>.
\<close>

definition okResponse :: response where
  "okResponse = \<lparr>Body = Inr (Some JNull), Close = None, Header = (\<lambda>k. None)\<rparr>"

definition stubClient :: client where
  "stubClient =
     \<lparr>clientGet = (\<lambda>uri. Inr okResponse),
      clientPatchWithHeaders = (\<lambda>uri payload header. Inr okResponse),
      clientPostWithHeaders = (\<lambda>uri payload header. Inr okResponse)\<rparr>"

definition bodyClient :: "json \<Rightarrow> (string \<Rightarrow> string list option) \<Rightarrow> client" where
  "bodyClient j h =
     \<lparr>clientGet = (\<lambda>uri. Inr \<lparr>Body = Inr (Some j), Close = None, Header = h\<rparr>),
      clientPatchWithHeaders = (\<lambda>uri payload header. Inr okResponse),
      clientPostWithHeaders = (\<lambda>uri payload header. Inr okResponse)\<rparr>"

text \<open>
  A run-time that ranges over a map in the order of its entries here and, as amd64
  does, converts a \<^verbatim>\<open>float64\<close> out of the range of \<^verbatim>\<open>int\<close> to the least \<^verbatim>\<open>int\<close>.
\<close>

definition amd64 :: runtime where
  "amd64 = \<lparr>rangeOrder = map snd, intOutOfRange = (\<lambda>x. - (2 ^ 63))\<rparr>"

text \<open>The exported fields of \<^verbatim>\<open>Entity\<close> as a shape.\<close>

definition entityShape :: shape where
  "entityShape = [(''@odata.id'', TString), (''Id'', TString), (''Name'', TString)]"

text \<open>
  Field descriptions: an exported field without tag (\<^verbatim>\<open>Description string\<close>), an
  exported field with a tag, an unexported field and an embedded struct.
\<close>

definition plainField :: "string \<Rightarrow> kind \<Rightarrow> fieldinfo" where
  "plainField n k = \<lparr>fname = n, ftag = [], exported = True, anonymous = False, fkind = k\<rparr>"

definition taggedField :: "string \<Rightarrow> string \<Rightarrow> kind \<Rightarrow> fieldinfo" where
  "taggedField n t k = \<lparr>fname = n, ftag = t, exported = True, anonymous = False, fkind = k\<rparr>"

definition privateField :: "string \<Rightarrow> kind \<Rightarrow> fieldinfo" where
  "privateField n k = \<lparr>fname = n, ftag = [], exported = False, anonymous = False, fkind = k\<rparr>"

definition embeddedField :: "string \<Rightarrow> fieldinfo" where
  "embeddedField n = \<lparr>fname = n, ftag = [], exported = True, anonymous = True, fkind = KStruct\<rparr>"

text \<open>An \<^verbatim>\<open>Entity\<close> as \<^verbatim>\<open>reflect\<close> sees it, with no client bound.\<close>

definition EntityValue :: "Entity \<Rightarrow> gval" where
  "EntityValue e = VStruct ''common.Entity''
     [(taggedField ''ODataID'' ''@odata.id'' KString, VString ''string'' (ODataID e)),
      (taggedField ''ID'' ''Id'' KString, VString ''string'' (ID e)),
      (taggedField ''Name'' ''Name'' KString, VString ''string'' (Name e)),
      (privateField ''client'' KInterface, VNil),
      (privateField ''etag'' KString, VString ''string'' (etag e)),
      (privateField ''stripEtagQuotes'' KBool, VBool ''bool'' (stripEtagQuotes e)),
      (privateField ''disableEtagMatch'' KBool, VBool ''bool'' (disableEtagMatch e))]"

text \<open>
  A resource in the style of the schemas: an embedded entity, a float, a slice, a
  nested struct and a pointer to another resource. \<open>tags\<close> is the address of the slice
  with its elements, \<open>owner\<close> the address the pointer holds.
  \<^verbatim>\<open>
  type Volume struct {
      common.Entity
      CapacityGiB float64
      Tags        []string
      Status      Status
      Owner       *Chassis
  }
  type Status struct{ Health string }
  type Chassis struct{ Name string }
  \<close>
\<close>

definition stringSliceValue :: "nat \<times> string list \<Rightarrow> gval" where
  "stringSliceValue tags = VSlice ''[]string'' (Some (fst tags, map (VString ''string'') (snd tags)))"

definition volumeValue :: "string \<Rightarrow> gofloat \<Rightarrow> nat \<times> string list \<Rightarrow> string \<Rightarrow> nat \<Rightarrow> gval" where
  "volumeValue name capacity tags health owner = VStruct ''Volume''
     [(embeddedField ''Entity'',
         EntityValue (newEntity\<lparr>ODataID := ''/redfish/v1/Volumes/1'', ID := ''1'', Name := name\<rparr>)),
      (plainField ''CapacityGiB'' KFloat, VFloat ''float64'' capacity),
      (plainField ''Tags'' KSlice, stringSliceValue tags),
      (plainField ''Status'' KStruct,
         VStruct ''Status'' [(plainField ''Health'' KString, VString ''string'' health)]),
      (plainField ''Owner'' KPtr,
         VPtr ''*Chassis'' (Some (owner,
           VStruct ''Chassis'' [(plainField ''Name'' KString, VString ''string'' ''chassis'')])))]"

text \<open>The diff of two such volumes, and an entity bound to the transport stub.\<close>

definition volumeDiff :: payload where
  "volumeDiff =
     [(''Name'', PVal (VString ''string'' ''b'')),
      (''Tags'', PVal (stringSliceValue (20, [''x'', ''y'']))),
      (''Status'', PMap [(''Health'', PVal (VString ''string'' ''Warning''))])]"

definition volumeEntity :: Entity where
  "volumeEntity = newEntity\<lparr>ODataID := ''/redfish/v1/Volumes/1'', client := Some stubClient\<rparr>"

text \<open>
  A record with a slice of records that have a field of pointer type. \<open>bays\<close> is the
  address of the slice, \<open>drive\<close> the address the pointer of its one element holds and
  \<open>name\<close> the name of the drive there.
  \<^verbatim>\<open>
  type Shelf struct{ Bays []Bay }
  type Bay struct{ Drive *Drive }
  type Drive struct{ Name string }
  \<close>
\<close>

definition shelfValue :: "nat \<Rightarrow> nat \<Rightarrow> string \<Rightarrow> gval" where
  "shelfValue bays drive name = VStruct ''Shelf''
     [(plainField ''Bays'' KSlice,
         VSlice ''[]Bay'' (Some (bays,
           [VStruct ''Bay''
              [(plainField ''Drive'' KPtr,
                  VPtr ''*Drive'' (Some (drive,
                    VStruct ''Drive'' [(plainField ''Name'' KString, VString ''string'' name)])))]])))]"

text \<open>
  A record whose nested record has a tag with an option; \<^verbatim>\<open>encoding/json\<close> writes the
  field under the wire name \<^verbatim>\<open>Oem\<close>.
  \<^verbatim>\<open>
  type Board struct{ Oem Oem `json:"Oem,omitempty"` }
  type Oem struct{ Vendor string }
  \<close>
\<close>

definition boardValue :: "string \<Rightarrow> gval" where
  "boardValue vendor = VStruct ''Board''
     [(taggedField ''Oem'' ''Oem,omitempty'' KStruct,
         VStruct ''Oem'' [(plainField ''Vendor'' KString, VString ''string'' vendor)])]"

text \<open>
  A transport on which one member of a collection times out, the value every other
  fetch of a line of service returns from it, and the link of a collection.
\<close>

definition flakyClient :: client where
  "flakyClient =
     \<lparr>clientGet = (\<lambda>uri. if uri = ''/redfish/v1/Lines/2'' then Inl (TransportError ''timeout'')
                           else Inr okResponse),
      clientPatchWithHeaders = (\<lambda>uri payload header. Inr okResponse),
      clientPostWithHeaders = (\<lambda>uri payload header. Inr okResponse)\<rparr>"

definition fetchedLine :: DataStorageLineOfService where
  "fetchedLine = (newEntity\<lparr>client := Some flakyClient\<rparr>, zeroRecord shapeDataStorageLineOfService)"

definition linesOfService :: string where
  "linesOfService = ''/redfish/v1/StorageServices/1/LinesOfService''"

text \<open>
  Bodies of a drive and of a computer system, and a response without headers.
\<close>

definition driveBody :: "rat \<Rightarrow> (string \<times> json) list" where
  "driveBody n =
     [(''@odata.id'', JStr ''/redfish/v1/Chassis/1/Drives/3''), (''Id'', JNum n),
      (''Name'', JStr ''disk'')]"

definition systemBody :: "json \<Rightarrow> (string \<times> json) list" where
  "systemBody ident =
     [(''@odata.id'', JStr ''/redfish/v1/Systems/1''), (''Id'', ident),
      (''Name'', JStr ''System'')]"

definition noHeaders :: "string \<Rightarrow> string list option" where
  "noHeaders k = None"

section \<open>Patch and the If-Match header\<close>

lemma Patch_requests_verbatim:
  assumes "client e = Some c" "etag e \<noteq> []" "\<not> disableEtagMatch e" "\<not> stripEtagQuotes e"
  shows "snd (snd (Patch e uri payload)) = [PatchReq uri payload [(''If-Match'', etag e)]]"
  using assms by (simp add: Patch_def split: sum.splits)

lemma Patch_requests_trimmed:
  assumes "client e = Some c" "etag e \<noteq> []" "\<not> disableEtagMatch e" "stripEtagQuotes e"
  shows "snd (snd (Patch e uri payload)) =
           [PatchReq uri payload [(''If-Match'', Trim (etag e) [dquote])]]"
  using assms by (simp add: Patch_def split: sum.splits)

lemma Trim_parts:
  "\<exists>a b. s = a @ Trim s cutset @ b \<and> set a \<subseteq> set cutset \<and> set b \<subseteq> set cutset \<and>
         (Trim s cutset \<noteq> [] \<longrightarrow>
            hd (Trim s cutset) \<notin> set cutset \<and> last (Trim s cutset) \<notin> set cutset)"
proof -
  define P where "P = (\<lambda>c. c \<in> set cutset)"
  define a where "a = takeWhile P s"
  define s1 where "s1 = dropWhile P s"
  define b where "b = rev (takeWhile P (rev s1))"
  define w where "w = dropWhile P (rev s1)"
  define u where "u = rev w"
  have tu: "Trim s cutset = u" by (simp add: Trim_def u_def w_def s1_def P_def)
  have "rev s1 = takeWhile P (rev s1) @ w" by (simp add: w_def)
  then have "rev (rev s1) = rev (takeWhile P (rev s1) @ w)" by (rule arg_cong)
  then have s1: "s1 = u @ b" by (simp only: rev_rev_ident rev_append u_def b_def)
  have "s = a @ s1" by (simp add: a_def s1_def)
  then have s: "s = a @ u @ b" using s1 by simp
  have sa: "set a \<subseteq> set cutset"
    unfolding a_def P_def by (auto dest: set_takeWhileD)
  have sb: "set b \<subseteq> set cutset"
    unfolding b_def P_def by (auto dest: set_takeWhileD)
  have ends: "hd u \<notin> set cutset \<and> last u \<notin> set cutset" if ne: "u \<noteq> []"
  proof -
    have ne1: "s1 \<noteq> []" using ne s1 by simp
    have "hd u = hd s1" using ne s1 by simp
    moreover have "\<not> P (hd s1)" using ne1 unfolding s1_def by (rule hd_dropWhile)
    ultimately have h: "hd u \<notin> set cutset" by (simp add: P_def)
    have ne2: "w \<noteq> []" using ne by (simp add: u_def)
    have "last u = hd w" using ne2 by (simp add: u_def last_rev)
    moreover have "\<not> P (hd w)" using ne2 unfolding w_def by (rule hd_dropWhile)
    ultimately have "last u \<notin> set cutset" by (simp add: P_def)
    then show ?thesis using h by simp
  qed
  show ?thesis unfolding tu using s sa sb ends by blast
qed

lemma Trim_abc123:
  "Trim ''abc123'' [dquote] = ''abc123''"
  "Trim (dquote # ''abc123'' @ [dquote]) [dquote] = ''abc123''"
  by (simp_all add: Trim_def)

text \<open>
  C3. An entity holds a version token \<open>t\<close>, version checking is on and a client is
  bound. With quote stripping off, Patch sends exactly one request and its only header
  is If-Match with the value \<open>t\<close>, as stored: Patch adds no quote character. With quote
  stripping on, the value is \<open>t\<close> without the quote characters at its two ends. So the
  value is \<^verbatim>\<open>abc123\<close> under stripping both for the token \<^verbatim>\<open>abc123\<close> and for the token
  \<^verbatim>\<open>"abc123"\<close>, and without stripping it is \<^verbatim>\<open>"abc123"\<close> only for the token stored with
  its quotes, as the Etag header carries it.
\<close>

theorem Patch_If_Match:
  assumes "etag e = t" and "t \<noteq> []"
      and "\<not> disableEtagMatch e"
      and "client e = Some c"
  shows "snd (snd (Patch (e\<lparr>stripEtagQuotes := False\<rparr>) uri payload)) =
           [PatchReq uri payload [(''If-Match'', t)]]
       \<and> (\<exists>a u b. t = a @ u @ b \<and> set a \<subseteq> {dquote} \<and> set b \<subseteq> {dquote} \<and>
             (u \<noteq> [] \<longrightarrow> hd u \<noteq> dquote \<and> last u \<noteq> dquote) \<and>
             snd (snd (Patch (e\<lparr>stripEtagQuotes := True\<rparr>) uri payload)) =
               [PatchReq uri payload [(''If-Match'', u)]])
       \<and> (t = ''abc123'' \<or> t = dquote # ''abc123'' @ [dquote] \<longrightarrow>
             snd (snd (Patch (e\<lparr>stripEtagQuotes := True\<rparr>) uri payload)) =
               [PatchReq uri payload [(''If-Match'', ''abc123'')]])"
proof -
  have off: "snd (snd (Patch (e\<lparr>stripEtagQuotes := False\<rparr>) uri payload)) =
               [PatchReq uri payload [(''If-Match'', t)]]"
    using assms Patch_requests_verbatim [of "e\<lparr>stripEtagQuotes := False\<rparr>" c uri payload]
    by simp
  have on: "snd (snd (Patch (e\<lparr>stripEtagQuotes := True\<rparr>) uri payload)) =
              [PatchReq uri payload [(''If-Match'', Trim t [dquote])]]"
    using assms Patch_requests_trimmed [of "e\<lparr>stripEtagQuotes := True\<rparr>" c uri payload]
    by simp
  from Trim_parts [of t "[dquote]"] obtain a b where
    "t = a @ Trim t [dquote] @ b" "set a \<subseteq> {dquote}" "set b \<subseteq> {dquote}"
    "Trim t [dquote] \<noteq> [] \<longrightarrow> hd (Trim t [dquote]) \<noteq> dquote \<and> last (Trim t [dquote]) \<noteq> dquote"
    by auto
  then have parts: "\<exists>a u b. t = a @ u @ b \<and> set a \<subseteq> {dquote} \<and> set b \<subseteq> {dquote} \<and>
             (u \<noteq> [] \<longrightarrow> hd u \<noteq> dquote \<and> last u \<noteq> dquote) \<and>
             snd (snd (Patch (e\<lparr>stripEtagQuotes := True\<rparr>) uri payload)) =
               [PatchReq uri payload [(''If-Match'', u)]]"
    using on by blast
  have abc: "t = ''abc123'' \<or> t = dquote # ''abc123'' @ [dquote] \<longrightarrow>
             snd (snd (Patch (e\<lparr>stripEtagQuotes := True\<rparr>) uri payload)) =
               [PatchReq uri payload [(''If-Match'', ''abc123'')]]"
    using on Trim_abc123 by auto
  show ?thesis using off parts abc by blast
qed

theorem Patch_If_Match_witness:
  "snd (snd (Patch (newEntity\<lparr>etag := dquote # ''abc123'' @ [dquote], client := Some stubClient,
                               stripEtagQuotes := False\<rparr>) ''/redfish/v1/Systems/1'' (PMap []))) =
     [PatchReq ''/redfish/v1/Systems/1'' (PMap []) [(''If-Match'', dquote # ''abc123'' @ [dquote])]]
   \<and> snd (snd (Patch (newEntity\<lparr>etag := dquote # ''abc123'' @ [dquote], client := Some stubClient,
                               stripEtagQuotes := True\<rparr>) ''/redfish/v1/Systems/1'' (PMap []))) =
     [PatchReq ''/redfish/v1/Systems/1'' (PMap []) [(''If-Match'', ''abc123'')]]"
  using Patch_If_Match
    [of "newEntity\<lparr>etag := dquote # ''abc123'' @ [dquote], client := Some stubClient\<rparr>"
        "dquote # ''abc123'' @ [dquote]" stubClient "''/redfish/v1/Systems/1''" "PMap []"]
  by (simp add: newEntity_def)

text \<open>
  An entity that holds the token \<^verbatim>\<open>abc123\<close>, without quote characters, and has quote
  stripping off: the value of If-Match is \<^verbatim>\<open>abc123\<close>, with no quote characters around it.
\<close>

theorem Patch_If_Match_unquoted_counterexample:
  "snd (snd (Patch (newEntity\<lparr>etag := ''abc123'', client := Some stubClient,
                               stripEtagQuotes := False\<rparr>) ''/redfish/v1/Systems/1'' (PMap []))) =
     [PatchReq ''/redfish/v1/Systems/1'' (PMap []) [(''If-Match'', ''abc123'')]]"
  by (simp add: Patch_def newEntity_def stubClient_def)

section \<open>Update validates before it sends\<close>

lemma found_iff: "found names field \<longleftrightarrow> field \<in> set names"
  by (induction names) auto

lemma firstReadOnly_None:
  "firstReadOnly ks allowed = None \<longleftrightarrow> set ks \<subseteq> set allowed"
  by (induction ks) (auto simp: found_iff)

lemma firstReadOnly_Some:
  "firstReadOnly ks allowed = Some f \<Longrightarrow> f \<in> set ks \<and> f \<notin> set allowed"
  by (induction ks) (auto simp: found_iff split: if_splits)

lemma Patch_requests:
  "snd (snd (Patch e uri payload)) = [] \<or>
   (\<exists>header. snd (snd (Patch e uri payload)) = [PatchReq uri payload header])"
  by (auto simp: Patch_def Let_def split: option.splits sum.splits prod.splits)

text \<open>
  C1. Let the diff of \<open>(original, updated)\<close> be \<open>payload\<close>, and let \<open>order\<close> visit the
  keys of the payload in any order. (1) When some key of the payload is missing from
  \<open>allowedFields\<close>, Update returns the error \<^verbatim>\<open><f> field is read only\<close> for a key \<open>f\<close> of the
  payload that is missing from \<open>allowedFields\<close>, makes no request and leaves the entity
  as it is. (2) When the payload is empty, Update returns nil and makes no request.
  (3) When the payload is not empty and all its keys are allowed, Update is the call
  \<open>Patch e (ODataID e) payload\<close>. (4) Whatever request Update makes is one PATCH of
  the payload to \<open>ODataID e\<close>, and it makes one only in case (3).
\<close>

theorem Update_validate_then_send:
  assumes diff: "getPatchPayloadFromUpdate original updated = Return payload"
      and ord: "set (order payload) = set (map fst payload)"
  shows "((\<exists>f \<in> set (map fst payload). f \<notin> set allowedFields) \<longrightarrow>
            (\<exists>f. f \<in> set (map fst payload) \<and> f \<notin> set allowedFields \<and>
                 Update e original updated allowedFields order =
                   (Return (Some (Errorf (f @ '' field is read only''))), e, [])))
       \<and> (payload = [] \<longrightarrow>
            Update e original updated allowedFields order = (Return None, e, []))
       \<and> (payload \<noteq> [] \<and> (\<forall>f \<in> set (map fst payload). f \<in> set allowedFields) \<longrightarrow>
            Update e original updated allowedFields order = Patch e (ODataID e) (PMap payload))
       \<and> (snd (snd (Update e original updated allowedFields order)) \<noteq> [] \<longrightarrow>
            payload \<noteq> [] \<and> (\<forall>f \<in> set (map fst payload). f \<in> set allowedFields) \<and>
            (\<exists>header. snd (snd (Update e original updated allowedFields order)) =
                 [PatchReq (ODataID e) (PMap payload) header]))"
proof (cases "firstReadOnly (order payload) allowedFields")
  case None
  then have allowed: "\<forall>f \<in> set (map fst payload). f \<in> set allowedFields"
    using ord by (auto simp: firstReadOnly_None)
  have upd: "Update e original updated allowedFields order =
               (if length payload > 0 then Patch e (ODataID e) (PMap payload)
                else (Return None, e, []))"
    using diff None by (simp add: Update_def)
  show ?thesis
  proof (cases "payload = []")
    case True
    then show ?thesis using upd by simp
  next
    case False
    then have "Update e original updated allowedFields order = Patch e (ODataID e) (PMap payload)"
      using upd by simp
    then show ?thesis
      using False allowed Patch_requests [of e "ODataID e" "PMap payload"] by auto
  qed
next
  case (Some f)
  then have f: "f \<in> set (map fst payload)" "f \<notin> set allowedFields"
    using firstReadOnly_Some [OF Some] ord by auto
  have upd: "Update e original updated allowedFields order =
               (Return (Some (Errorf (f @ '' field is read only''))), e, [])"
    using diff Some by (simp add: Update_def)
  have ne: "payload \<noteq> []" using f by auto
  show ?thesis using upd f ne by auto
qed

section \<open>The loop of the diff engine, field by field\<close>

lemma fieldLoop_skip:
  "\<not> visited (fst f) \<Longrightarrow> fieldLoop (f # rest) upd i p = fieldLoop rest upd (Suc i) p"
  by (auto simp: visited_def Let_def)

lemma fieldLoop_visit:
  "visited (fst f) \<Longrightarrow>
   fieldLoop (f # rest) upd i p =
     (case FieldAt upd i of
        None \<Rightarrow> Panic
      | Some u \<Rightarrow>
         (if \<not> exported (fst u) then Panic
          else case fieldStep f u p of
                 Panic \<Rightarrow> Panic
               | Return p' \<Rightarrow> fieldLoop rest upd (Suc i) p'))"
  by (auto simp: visited_def Let_def fieldStep_def fieldName_def Interface_def
           split: option.splits outcome.splits)

declare fieldLoop.simps(2) [simp del]
declare getPatchPayloadFromUpdate.simps [simp del]
declare DeepEqual.simps(1) [simp del]

declare stableRecord.simps [simp del]
declare ptrVariant.simps [simp del]
declare mayWrite.simps [simp del]
declare store.simps [simp del]

lemma size_field_less: "f \<in> set fs \<Longrightarrow> size (snd f) < size (VStruct t fs)"
  by (induction fs) (auto simp: less_Suc_eq_le split: prod.splits)

lemma struct_induct [case_names Struct Other]:
  assumes "\<And>t fs. (\<And>f. f \<in> set fs \<Longrightarrow> P (snd f)) \<Longrightarrow> P (VStruct t fs)"
      and "\<And>v. kind_of v \<noteq> KStruct \<Longrightarrow> P v"
  shows "P v"
proof (induction "size v" arbitrary: v rule: less_induct)
  case less
  show ?case
  proof (cases "kind_of v = KStruct")
    case True
    then obtain t fs where v: "v = VStruct t fs" by (cases v) auto
    show ?thesis unfolding v
      by (rule assms(1)) (use less v size_field_less in blast)
  next
    case False
    then show ?thesis by (rule assms(2))
  qed
qed

lemma stableRecord_Struct [simp]: "stableRecord (VStruct t fs) = stableFields fs"
  by (simp add: stableRecord.simps)

lemma getPatch_Struct:
  "getPatchPayloadFromUpdate (VStruct t fs) upd = fieldLoop fs upd 0 []"
  by (simp add: getPatchPayloadFromUpdate.simps)

lemma getPatch_not_Struct:
  "kind_of v \<noteq> KStruct \<Longrightarrow> getPatchPayloadFromUpdate v upd = Panic"
  by (cases v) (auto simp: getPatchPayloadFromUpdate.simps)

lemma DeepEqual_same:
  "kind_of v = KSlice \<or> kind_of v = KMap \<Longrightarrow> DeepEqual v v"
  by (cases v) (auto simp: DeepEqual.simps split: option.splits)

lemma fieldStep_self:
  assumes nested: "kind_of (snd f) = KStruct \<Longrightarrow> stableRecord (snd f)
                     \<Longrightarrow> getPatchPayloadFromUpdate (snd f) (snd f) = Return []"
      and st: "stableFields (f # rest)" and vis: "visited (fst f)"
  shows "fieldStep f f payload = Return payload"
proof (cases "snd f")
  case (VStruct t fs)
  then have "fkind (fst f) \<noteq> KInterface" "stableRecord (snd f)"
    using st vis by auto
  then show ?thesis using nested VStruct
    by (simp add: fieldStep_def asValue_def splicePayload_def)
next
  case (VSlice t xs)
  then show ?thesis using DeepEqual_same [of "snd f"] by (simp add: fieldStep_def)
next
  case (VMap t m)
  then show ?thesis using DeepEqual_same [of "snd f"] by (simp add: fieldStep_def)
qed (use st vis in \<open>auto simp: fieldStep_def neq_def\<close>)

lemma fieldLoop_self:
  assumes nested: "\<And>f. f \<in> set fs \<Longrightarrow> kind_of (snd f) = KStruct \<Longrightarrow> stableRecord (snd f)
                     \<Longrightarrow> getPatchPayloadFromUpdate (snd f) (snd f) = Return []"
  shows "fs = pre @ rest \<Longrightarrow> stableFields rest \<Longrightarrow>
         fieldLoop rest (VStruct t fs) (length pre) payload = Return payload"
proof (induction rest arbitrary: pre)
  case Nil
  show ?case by simp
next
  case (Cons f rest)
  have fs': "fs = (pre @ [f]) @ rest" using Cons.prems by simp
  have IH: "fieldLoop rest (VStruct t fs) (Suc (length pre)) payload = Return payload"
    using Cons.IH [OF fs'] Cons.prems(2) by simp
  have at: "FieldAt (VStruct t fs) (length pre) = Some f" using Cons.prems by simp
  show ?case
  proof (cases "visited (fst f)")
    case False
    then show ?thesis using IH by (simp add: fieldLoop_skip)
  next
    case True
    have "f \<in> set fs" using Cons.prems by simp
    then have step: "fieldStep f f payload = Return payload"
      using fieldStep_self [OF nested Cons.prems(2) True] by blast
    have "exported (fst f)" using True by (simp add: visited_def)
    then show ?thesis using True IH at step by (simp add: fieldLoop_visit)
  qed
qed

lemma diff_self_empty:
  "stableRecord A \<Longrightarrow> getPatchPayloadFromUpdate A A = Return []"
proof (induction A rule: struct_induct)
  case (Struct t fs)
  have "fieldLoop fs (VStruct t fs) (length ([]::(fieldinfo \<times> gval) list)) [] = Return []"
    by (rule fieldLoop_self [where pre = "[]"]) (use Struct in auto)
  then show ?case by (simp add: getPatch_Struct)
next
  case (Other v)
  then show ?case by (cases v) (auto simp: stableRecord.simps)
qed


lemma ptrVariant_Struct [simp]:
  "ptrVariant (VStruct t fs) w = (case w of VStruct s gs \<Rightarrow> ptrVariantFields fs gs | _ \<Rightarrow> False)"
  by (simp add: ptrVariant.simps)

lemma ptrVariant_kind: "ptrVariant v w \<Longrightarrow> kind_of v = KStruct \<and> kind_of w = KStruct"
  by (cases v; cases w) (auto simp: ptrVariant.simps)

lemma fieldStep_variant:
  assumes nested: "ptrVariant (snd f) (snd g) \<Longrightarrow>
             getPatchPayloadFromUpdate (snd f) (snd g) = getPatchPayloadFromUpdate (snd f) (snd f)"
      and info: "fst g = fst f"
      and var: "snd g = snd f \<or> (fkind (fst f) = KStruct \<and> ptrVariant (snd f) (snd g))"
  shows "fieldStep f g payload = fieldStep f f payload"
proof (cases "snd g = snd f")
  case True
  then have "g = f" using info by (simp add: prod_eq_iff)
  then show ?thesis by simp
next
  case False
  then have k: "fkind (fst f) = KStruct" and pv: "ptrVariant (snd f) (snd g)"
    using var by auto
  have kinds: "kind_of (snd f) = KStruct" "kind_of (snd g) = KStruct"
    using ptrVariant_kind [OF pv] by auto
  then have nn: "snd f \<noteq> VNil" "snd g \<noteq> VNil" by auto
  show ?thesis
    using nested [OF pv] kinds nn k info
    by (simp add: fieldStep_def asValue_def)
qed

lemma fieldLoop_variant:
  assumes nested: "\<And>f w. f \<in> set fs \<Longrightarrow> ptrVariant (snd f) w \<Longrightarrow>
             getPatchPayloadFromUpdate (snd f) w = getPatchPayloadFromUpdate (snd f) (snd f)"
  shows "fs = pre @ rest \<Longrightarrow> gs = pre' @ rest' \<Longrightarrow> length pre' = length pre \<Longrightarrow>
         ptrVariantFields rest rest' \<Longrightarrow>
         fieldLoop rest (VStruct s gs) (length pre) payload =
         fieldLoop rest (VStruct t fs) (length pre) payload"
proof (induction rest arbitrary: pre pre' rest' payload)
  case Nil
  show ?case by simp
next
  case (Cons f rest)
  from Cons.prems(4) obtain g rest'' where r': "rest' = g # rest''"
    and info: "fst g = fst f"
    and var: "fkind (fst f) = KPtr \<or> snd g = snd f \<or>
              (fkind (fst f) = KStruct \<and> ptrVariant (snd f) (snd g))"
    and more: "ptrVariantFields rest rest''"
    by (auto split: list.splits)
  have fs': "fs = (pre @ [f]) @ rest" "gs = (pre' @ [g]) @ rest''"
    "length (pre' @ [g]) = length (pre @ [f])"
    using Cons.prems r' by simp_all
  have IH: "\<And>p. fieldLoop rest (VStruct s gs) (Suc (length pre)) p =
                 fieldLoop rest (VStruct t fs) (Suc (length pre)) p"
    using Cons.IH [OF fs' more] by simp
  have at: "FieldAt (VStruct t fs) (length pre) = Some f" "FieldAt (VStruct s gs) (length pre) = Some g"
    using Cons.prems r' by (simp_all add: nth_append)
  show ?case
  proof (cases "visited (fst f)")
    case False
    then show ?thesis using IH by (simp add: fieldLoop_skip)
  next
    case True
    then have "fkind (fst f) \<noteq> KPtr" by (simp add: visited_def)
    then have var': "snd g = snd f \<or> (fkind (fst f) = KStruct \<and> ptrVariant (snd f) (snd g))"
      using var by blast
    have "f \<in> set fs" using Cons.prems by simp
    then have step: "fieldStep f g payload = fieldStep f f payload"
      using fieldStep_variant [OF _ info var'] nested by blast
    show ?thesis using True IH at step info
      by (simp add: fieldLoop_visit split: outcome.splits)
  qed
qed

lemma diff_variant:
  "ptrVariant A B \<Longrightarrow> getPatchPayloadFromUpdate A B = getPatchPayloadFromUpdate A A"
proof (induction A arbitrary: B rule: struct_induct)
  case (Struct t fs)
  then obtain s gs where B: "B = VStruct s gs" and v: "ptrVariantFields fs gs"
    by (cases B) auto
  have "fieldLoop fs (VStruct s gs) (length ([]::(fieldinfo \<times> gval) list)) [] =
        fieldLoop fs (VStruct t fs) (length ([]::(fieldinfo \<times> gval) list)) []"
    by (rule fieldLoop_variant [where pre = "[]" and pre' = "[]" and rest' = gs])
       (use Struct v in auto)
  then show ?case using B by (simp add: getPatch_Struct)
next
  case (Other v)
  then show ?case using ptrVariant_kind by blast
qed


lemma mayWriteFields_append [simp]:
  "mayWriteFields (xs @ ys) = mayWriteFields xs @ mayWriteFields ys"
  by (induction xs) auto

lemma payloadKeys_Nil [simp]: "payloadKeys [] = {}"
  by (simp add: payloadKeys_def)

lemma payloadKeys_Cons [simp]: "payloadKeys (a # m) = insert (fst a) (payloadKeys m)"
  by (simp add: payloadKeys_def)

lemma payloadKeys_put [simp]: "payloadKeys (put k v m) = insert k (payloadKeys m)"
proof (induction m)
  case Nil
  show ?case by simp
next
  case (Cons a m)
  obtain k' v' where a: "a = (k', v')" by (cases a)
  show ?case using Cons a by (cases "k = k'") (simp_all add: insert_commute)
qed

lemma map_of_put [simp]: "map_of (put k v m) k' = (if k' = k then Some v else map_of m k')"
  by (induction m) auto

lemma map_of_None_keys: "map_of m k = None \<longleftrightarrow> k \<notin> payloadKeys m"
  by (simp add: map_of_eq_None_iff payloadKeys_def)

lemma distinct_keys_Cons:
  "distinct (map fst (a # m)) \<longleftrightarrow> fst a \<notin> payloadKeys m \<and> distinct (map fst m)"
  by (simp add: payloadKeys_def)

lemma distinct_put: "distinct (map fst m) \<Longrightarrow> distinct (map fst (put k v m))"
proof (induction m)
  case Nil
  show ?case by simp
next
  case (Cons a m)
  obtain k' v' where a: "a = (k', v')" by (cases a)
  show ?case
  proof (cases "k = k'")
    case True
    then show ?thesis using Cons.prems a by simp
  next
    case False
    have "put k v (a # m) = (k', v') # put k v m" using False a by simp
    moreover have "k' \<notin> payloadKeys m"
      using Cons.prems a by (simp add: payloadKeys_def)
    then have "k' \<notin> payloadKeys (put k v m)"
      using False by simp
    moreover have "distinct (map fst (put k v m))" using Cons by simp
    ultimately show ?thesis by (metis distinct_keys_Cons fst_conv)
  qed
qed

lemma payloadKeys_splice [simp]:
  "payloadKeys (splicePayload sp p) = payloadKeys sp \<union> payloadKeys p"
  unfolding splicePayload_def
proof (induction sp arbitrary: p)
  case Nil
  show ?case by simp
next
  case (Cons a sp)
  obtain k1 v1 where a: "a = (k1, v1)" by (cases a)
  have "payloadKeys (foldl (\<lambda>p (k, v). put k v p) (put k1 v1 p) sp) =
        payloadKeys sp \<union> insert k1 (payloadKeys p)"
    by (simp add: Cons.IH)
  then show ?case using a by simp
qed

lemma distinct_splice:
  "distinct (map fst p) \<Longrightarrow> distinct (map fst (splicePayload sp p))"
  unfolding splicePayload_def
  by (induction sp arbitrary: p) (auto simp: distinct_put simp del: put.simps)

lemma map_of_splice:
  "distinct (map fst sp) \<Longrightarrow>
   map_of (splicePayload sp p) k = (case map_of sp k of Some v \<Rightarrow> Some v | None \<Rightarrow> map_of p k)"
  unfolding splicePayload_def
proof (induction sp arbitrary: p)
  case Nil
  show ?case by simp
next
  case (Cons a sp)
  obtain k1 v1 where a: "a = (k1, v1)" by (cases a)
  have "k1 \<notin> payloadKeys sp" using Cons.prems a by (simp add: payloadKeys_def)
  then have none: "map_of sp k1 = None" by (simp add: map_of_None_keys)
  show ?case using Cons.IH [of "put k1 v1 p"] Cons.prems a none
    by (auto split: option.splits)
qed

lemma fieldStep_distinct:
  "fieldStep f u p = Return q \<Longrightarrow> distinct (map fst p) \<Longrightarrow> distinct (map fst q)"
  by (auto simp: fieldStep_def Let_def distinct_put distinct_splice
           split: if_splits outcome.splits)

lemma fieldLoop_distinct:
  "fieldLoop rest upd i p = Return q \<Longrightarrow> distinct (map fst p) \<Longrightarrow> distinct (map fst q)"
proof (induction rest arbitrary: i p)
  case Nil
  then show ?case by simp
next
  case (Cons f rest)
  show ?case
  proof (cases "visited (fst f)")
    case False
    then show ?thesis using Cons by (simp add: fieldLoop_skip)
  next
    case True
    then show ?thesis using Cons.prems Cons.IH fieldStep_distinct
      by (auto simp: fieldLoop_visit split: option.splits if_splits outcome.splits)
  qed
qed

lemma getPatch_distinct:
  "getPatchPayloadFromUpdate A B = Return sp \<Longrightarrow> distinct (map fst sp)"
  by (cases A) (auto simp: getPatchPayloadFromUpdate.simps dest: fieldLoop_distinct)

lemma fieldLoop_append:
  "fieldLoop (pre @ rest) upd i p =
     (case fieldLoop pre upd i p of
        Panic \<Rightarrow> Panic
      | Return q \<Rightarrow> fieldLoop rest upd (i + length pre) q)"
proof (induction pre arbitrary: i p)
  case Nil
  show ?case by simp
next
  case (Cons f pre)
  show ?case
  proof (cases "visited (fst f)")
    case False
    then show ?thesis using Cons by (simp add: fieldLoop_skip split: outcome.splits)
  next
    case True
    then show ?thesis using Cons
      by (simp add: fieldLoop_visit split: option.splits outcome.splits)
  qed
qed

lemma fieldStep_keys:
  assumes nested: "\<And>t fs w sp. snd f = VStruct t fs \<Longrightarrow>
              getPatchPayloadFromUpdate (VStruct t fs) w = Return sp \<Longrightarrow>
              payloadKeys sp \<subseteq> set (mayWriteFields fs)"
      and vis: "visited (fst f)"
      and step: "fieldStep f u p = Return q"
  shows "payloadKeys q \<subseteq> payloadKeys p \<union> set (mayWrite f)"
proof (cases "snd f")
  case (VStruct t fs)
  show ?thesis
  proof (cases "fkind (fst f) = KInterface")
    case True
    then show ?thesis using step VStruct
      by (simp add: fieldStep_def asValue_def getPatchPayloadFromUpdate.simps)
  next
    case False
    then obtain sp where sp: "getPatchPayloadFromUpdate (VStruct t fs) (asValue u) = Return sp"
      and q: "q = (if anonymous (fst f) then splicePayload sp p
                   else if length sp \<noteq> 0 then put (fieldName (fst f)) (PMap sp) p else p)"
      using step VStruct
      by (auto simp: fieldStep_def asValue_def split: outcome.splits)
    have "payloadKeys sp \<subseteq> set (mayWriteFields fs)" using nested [OF VStruct sp] .
    then show ?thesis using q vis VStruct by (auto simp: mayWrite.simps)
  qed
qed (use step vis in \<open>auto simp: fieldStep_def Let_def mayWrite.simps split: if_splits outcome.splits\<close>)

lemma fieldLoop_keys:
  assumes nested: "\<And>f t fs w sp. f \<in> set rest \<Longrightarrow> snd f = VStruct t fs \<Longrightarrow>
              getPatchPayloadFromUpdate (VStruct t fs) w = Return sp \<Longrightarrow>
              payloadKeys sp \<subseteq> set (mayWriteFields fs)"
  shows "fieldLoop rest upd i p = Return q \<Longrightarrow>
         payloadKeys q \<subseteq> payloadKeys p \<union> set (mayWriteFields rest)"
  using nested
proof (induction rest arbitrary: i p)
  case Nil
  then show ?case by simp
next
  case (Cons f rest)
  have IH: "\<And>i p. fieldLoop rest upd i p = Return q \<Longrightarrow>
              payloadKeys q \<subseteq> payloadKeys p \<union> set (mayWriteFields rest)"
    using Cons.IH Cons.prems(2) by (meson list.set_intros(2))
  show ?case
  proof (cases "visited (fst f)")
    case False
    then show ?thesis using Cons.prems(1) IH by (auto simp: fieldLoop_skip mayWrite.simps)
  next
    case True
    from Cons.prems(1) True obtain u p' where
      step: "fieldStep f u p = Return p'" and loop: "fieldLoop rest upd (Suc i) p' = Return q"
      by (auto simp: fieldLoop_visit split: option.splits if_splits outcome.splits)
    have nested_f: "\<And>t fs w sp. snd f = VStruct t fs \<Longrightarrow>
              getPatchPayloadFromUpdate (VStruct t fs) w = Return sp \<Longrightarrow>
              payloadKeys sp \<subseteq> set (mayWriteFields fs)"
      using Cons.prems(2) by (meson list.set_intros(1))
    have "payloadKeys p' \<subseteq> payloadKeys p \<union> set (mayWrite f)"
      by (rule fieldStep_keys [OF nested_f True step])
    then show ?thesis using IH [OF loop] by auto
  qed
qed

lemma getPatch_keys:
  "getPatchPayloadFromUpdate (VStruct t fs) w = Return sp \<Longrightarrow>
   payloadKeys sp \<subseteq> set (mayWriteFields fs)"
proof (induction "VStruct t fs" arbitrary: t fs w sp rule: struct_induct)
  case (Struct t fs)
  have "payloadKeys sp \<subseteq> payloadKeys ([]::payload) \<union> set (mayWriteFields fs)"
  proof (rule fieldLoop_keys)
    show "fieldLoop fs w 0 [] = Return sp" using Struct.prems by (simp add: getPatch_Struct)
  next
    fix f t' fs' w' sp'
    assume "f \<in> set fs" "snd f = VStruct t' fs'"
      "getPatchPayloadFromUpdate (VStruct t' fs') w' = Return sp'"
    then show "payloadKeys sp' \<subseteq> set (mayWriteFields fs')"
      using Struct.hyps by metis
  qed
  then show ?case by simp
next
  case (Other v)
  then show ?case by simp
qed


lemma fieldStep_frame:
  assumes vis: "visited (fst f)" and step: "fieldStep f u p = Return q"
      and k: "k \<notin> set (mayWrite f)"
  shows "map_of q k = map_of p k"
proof (cases "snd f")
  case (VStruct t fs)
  show ?thesis
  proof (cases "fkind (fst f) = KInterface")
    case True
    then show ?thesis using step VStruct
      by (simp add: fieldStep_def asValue_def getPatchPayloadFromUpdate.simps)
  next
    case False
    then obtain sp where sp: "getPatchPayloadFromUpdate (VStruct t fs) (asValue u) = Return sp"
      and q: "q = (if anonymous (fst f) then splicePayload sp p
                   else if length sp \<noteq> 0 then put (fieldName (fst f)) (PMap sp) p else p)"
      using step VStruct
      by (auto simp: fieldStep_def asValue_def split: outcome.splits)
    show ?thesis
    proof (cases "anonymous (fst f)")
      case True
      then have "k \<notin> set (mayWriteFields fs)" using k vis VStruct by (simp add: mayWrite.simps)
      then have "k \<notin> payloadKeys sp" using getPatch_keys [OF sp] by blast
      then have "map_of sp k = None" by (simp add: map_of_None_keys)
      then show ?thesis using q True getPatch_distinct [OF sp] by (simp add: map_of_splice)
    next
      case False
      then have "k \<noteq> fieldName (fst f)" using k vis VStruct by (simp add: mayWrite.simps)
      then show ?thesis using q False by simp
    qed
  qed
qed (use step vis k in \<open>auto simp: fieldStep_def Let_def mayWrite.simps split: if_splits outcome.splits\<close>)

lemma fieldLoop_frame:
  "fieldLoop rest upd i p = Return q \<Longrightarrow> k \<notin> set (mayWriteFields rest) \<Longrightarrow>
   map_of q k = map_of p k"
proof (induction rest arbitrary: i p)
  case Nil
  then show ?case by simp
next
  case (Cons f rest)
  show ?case
  proof (cases "visited (fst f)")
    case False
    then show ?thesis using Cons by (simp add: fieldLoop_skip)
  next
    case True
    from Cons.prems(1) True obtain u p' where
      step: "fieldStep f u p = Return p'" and loop: "fieldLoop rest upd (Suc i) p' = Return q"
      by (auto simp: fieldLoop_visit split: option.splits if_splits outcome.splits)
    have "map_of p' k = map_of p k"
      by (rule fieldStep_frame [OF True step]) (use Cons.prems(2) in simp)
    moreover have "map_of q k = map_of p' k"
      by (rule Cons.IH [OF loop]) (use Cons.prems(2) in simp)
    ultimately show ?thesis by simp
  qed
qed

lemma fieldLoop_at:
  assumes run: "fieldLoop (pre @ f # post) upd 0 [] = Return p" and vis: "visited (fst f)"
  shows "\<exists>u q1 q2. FieldAt upd (length pre) = Some u \<and> exported (fst u) \<and>
           fieldLoop pre upd 0 [] = Return q1 \<and> fieldStep f u q1 = Return q2 \<and>
           fieldLoop post upd (Suc (length pre)) q2 = Return p"
  using run vis
  by (auto simp: fieldLoop_append fieldLoop_visit split: outcome.splits option.splits if_splits)

lemma DeepEqual_scalar: "scalar x \<Longrightarrow> scalar y \<Longrightarrow> DeepEqual x y = (x = y)"
  by (cases x; cases y) (auto simp: DeepEqual.simps elim: float_eq.elims)

lemma DeepEqual_list_scalars:
  "\<forall>x \<in> set xs. scalar x \<Longrightarrow> \<forall>y \<in> set ys. scalar y \<Longrightarrow> DeepEqual_list xs ys = (xs = ys)"
proof (induction xs arbitrary: ys)
  case Nil
  show ?case by auto
next
  case (Cons x xs)
  show ?case
  proof (cases ys)
    case Nil
    then show ?thesis by simp
  next
    case (Cons y ys')
    then show ?thesis using Cons.prems Cons.IH [of ys'] by (simp add: DeepEqual_scalar)
  qed
qed

lemma DeepEqual_map_scalars:
  assumes "\<forall>kv \<in> set m. scalar (snd kv)" "\<forall>kv \<in> set n. scalar (snd kv)"
  shows "DeepEqual_map m n = (\<forall>kv \<in> set m. map_of n (fst kv) = Some (snd kv))"
  using assms(1)
proof (induction m)
  case Nil
  show ?case by simp
next
  case (Cons a m)
  obtain k x where a: "a = (k, x)" by (cases a)
  have sx: "scalar x" using Cons.prems a by simp
  have "(case map_of n k of None \<Rightarrow> False | Some y \<Rightarrow> DeepEqual x y) = (map_of n k = Some x)"
  proof (cases "map_of n k")
    case None
    then show ?thesis by simp
  next
    case (Some y)
    then have "(k, y) \<in> set n" by (rule map_of_SomeD)
    then have "scalar y" using assms(2) by force
    then show ?thesis using Some sx by (auto simp: DeepEqual_scalar)
  qed
  then show ?case using Cons a by simp
qed

lemma same_entries:
  assumes dm: "distinct (map fst m)" and dn: "distinct (map fst n)"
  shows "(length m = length n \<and> (\<forall>kv \<in> set m. map_of n (fst kv) = Some (snd kv)))
         = (map_of m = map_of n)"
proof
  assume l: "length m = length n \<and> (\<forall>kv \<in> set m. map_of n (fst kv) = Some (snd kv))"
  have sub: "set m \<subseteq> set n"
  proof
    fix kv assume "kv \<in> set m"
    then have "map_of n (fst kv) = Some (snd kv)" using l by blast
    then have "(fst kv, snd kv) \<in> set n" by (rule map_of_SomeD)
    then show "kv \<in> set n" by simp
  qed
  have "distinct m" "distinct n" using dm dn by (auto simp: distinct_map)
  then have "card (set m) = card (set n)" using l by (simp add: distinct_card)
  then have "set m = set n" using sub by (simp add: card_subset_eq)
  then show "map_of m = map_of n" using dm dn by (simp add: map_of_inject_set)
next
  assume e: "map_of m = map_of n"
  then have s: "set m = set n" using dm dn by (simp add: map_of_inject_set)
  have "distinct m" "distinct n" using dm dn by (auto simp: distinct_map)
  then have "length m = length n" using s by (metis distinct_card)
  moreover have "\<forall>kv \<in> set m. map_of n (fst kv) = Some (snd kv)"
    using s dn by auto
  ultimately show "length m = length n \<and> (\<forall>kv \<in> set m. map_of n (fst kv) = Some (snd kv))"
    by blast
qed

lemma DeepEqual_types: "DeepEqual v w \<Longrightarrow> typeOf v = typeOf w"
  by (cases v; cases w) (auto simp: DeepEqual.simps split: option.splits)

lemma DeepEqual_flat_slices:
  assumes "a \<noteq> b" "\<forall>x \<in> set xs. scalar x" "\<forall>y \<in> set ys. scalar y"
  shows "DeepEqual (VSlice s (Some (a, xs))) (VSlice s (Some (b, ys))) = (xs = ys)"
  using assms DeepEqual_list_scalars [of xs ys] by (auto simp: DeepEqual.simps)

lemma DeepEqual_flat_maps:
  assumes "a \<noteq> b" "distinct (map fst m)" "distinct (map fst n)"
    "\<forall>kv \<in> set m. scalar (snd kv)" "\<forall>kv \<in> set n. scalar (snd kv)"
  shows "DeepEqual (VMap s (Some (a, m))) (VMap s (Some (b, n))) = (map_of m = map_of n)"
  using assms(1) DeepEqual_map_scalars [OF assms(4,5)] same_entries [OF assms(2,3)]
  by (auto simp: DeepEqual.simps)



lemma fieldStep_grows:
  "fieldStep f u p = Return q \<Longrightarrow> payloadKeys p \<subseteq> payloadKeys q"
  by (auto simp: fieldStep_def Let_def split: if_splits outcome.splits)

lemma fieldLoop_grows:
  "fieldLoop rest upd i p = Return q \<Longrightarrow> payloadKeys p \<subseteq> payloadKeys q"
proof (induction rest arbitrary: i p)
  case Nil
  then show ?case by simp
next
  case (Cons f rest)
  show ?case
  proof (cases "visited (fst f)")
    case False
    then show ?thesis using Cons by (simp add: fieldLoop_skip)
  next
    case True
    from Cons.prems(1) True obtain u p' where
      step: "fieldStep f u p = Return p'" and loop: "fieldLoop rest upd (Suc i) p' = Return q"
      by (auto simp: fieldLoop_visit split: option.splits if_splits outcome.splits)
    show ?thesis using fieldStep_grows [OF step] Cons.IH [OF loop] by blast
  qed
qed

lemma payloadKeys_empty: "payloadKeys m = {} \<longleftrightarrow> m = []"
  by (cases m) auto

lemma fieldStep_self_empty:
  assumes nested: "\<And>t fs. snd f = VStruct t fs \<Longrightarrow>
             getPatchPayloadFromUpdate (snd f) (snd f) = Return [] \<Longrightarrow> stableRecord (snd f)"
      and vis: "visited (fst f)" and step: "fieldStep f f p = Return []"
  shows "(case snd f of
            VFloat t x \<Rightarrow> float_eq x x
          | VFunc t g \<Rightarrow> False
          | VStruct t fs \<Rightarrow> fkind (fst f) \<noteq> KInterface \<and> stableRecord (snd f)
          | _ \<Rightarrow> True)"
proof (cases "snd f")
  case (VStruct t fs)
  have ni: "fkind (fst f) \<noteq> KInterface"
    using step VStruct
    by (auto simp: fieldStep_def asValue_def getPatchPayloadFromUpdate.simps)
  then obtain sp where sp: "getPatchPayloadFromUpdate (snd f) (snd f) = Return sp"
    and q: "(if anonymous (fst f) then splicePayload sp p
             else if length sp \<noteq> 0 then put (fieldName (fst f)) (PMap sp) p else p) = []"
    using step VStruct
    by (auto simp: fieldStep_def asValue_def Let_def split: outcome.splits)
  have "payloadKeys (if anonymous (fst f) then splicePayload sp p
             else if length sp \<noteq> 0 then put (fieldName (fst f)) (PMap sp) p else p) = {}"
    using q by simp
  then have "payloadKeys sp = {}" by (auto split: if_splits)
  then have "sp = []" by (simp add: payloadKeys_empty)
  then show ?thesis using nested [OF VStruct] sp ni VStruct by simp
next
  case (VFloat t x)
  have "\<not> float_eq x x \<Longrightarrow> False"
  proof -
    assume "\<not> float_eq x x"
    then have "fieldStep f f p = Return (put (fieldName (fst f)) (PVal (VFloat t x)) p)"
      using VFloat by (simp add: fieldStep_def neq_def)
    then have "payloadKeys (put (fieldName (fst f)) (PVal (VFloat t x)) p) = {}"
      using step by simp
    then show False by simp
  qed
  then show ?thesis using VFloat by auto
next
  case (VFunc t g)
  then show ?thesis using step by (simp add: fieldStep_def neq_def)
qed simp_all

lemma fieldLoop_self_empty:
  assumes nested: "\<And>f t' fs'. f \<in> set fs \<Longrightarrow> snd f = VStruct t' fs' \<Longrightarrow>
             getPatchPayloadFromUpdate (snd f) (snd f) = Return [] \<Longrightarrow> stableRecord (snd f)"
  shows "fs = pre @ rest \<Longrightarrow> fieldLoop rest (VStruct t fs) (length pre) p = Return [] \<Longrightarrow>
         stableFields rest"
proof (induction rest arbitrary: pre p)
  case Nil
  show ?case by simp
next
  case (Cons f rest)
  have fs': "fs = (pre @ [f]) @ rest" using Cons.prems by simp
  have at: "FieldAt (VStruct t fs) (length pre) = Some f" using Cons.prems by simp
  show ?case
  proof (cases "visited (fst f)")
    case False
    then have "fieldLoop rest (VStruct t fs) (length (pre @ [f])) p = Return []"
      using Cons.prems(2) by (simp add: fieldLoop_skip)
    from Cons.IH [OF fs' this] False show ?thesis by simp
  next
    case True
    from Cons.prems(2) True at obtain p' where
      step: "fieldStep f f p = Return p'" and
      loop: "fieldLoop rest (VStruct t fs) (length (pre @ [f])) p' = Return []"
      by (auto simp: fieldLoop_visit split: if_splits outcome.splits)
    have "payloadKeys p' \<subseteq> payloadKeys ([]::payload)" using fieldLoop_grows [OF loop] .
    then have p': "p' = []" by (simp add: payloadKeys_empty)
    have "f \<in> set fs" using Cons.prems by simp
    then have nested_f: "\<And>t' fs'. snd f = VStruct t' fs' \<Longrightarrow>
             getPatchPayloadFromUpdate (snd f) (snd f) = Return [] \<Longrightarrow> stableRecord (snd f)"
      using nested by blast
    have "(case snd f of
            VFloat t x \<Rightarrow> float_eq x x
          | VFunc t g \<Rightarrow> False
          | VStruct t fs \<Rightarrow> fkind (fst f) \<noteq> KInterface \<and> stableRecord (snd f)
          | _ \<Rightarrow> True)"
      by (rule fieldStep_self_empty [OF nested_f True]) (use step p' in auto)
    then show ?thesis using True Cons.IH [OF fs' loop] by simp
  qed
qed

lemma diff_self_empty_conv:
  "getPatchPayloadFromUpdate A A = Return [] \<Longrightarrow> stableRecord A"
proof (induction A rule: struct_induct)
  case (Struct t fs)
  have "stableFields fs"
  proof (rule fieldLoop_self_empty [where pre = "[]" and p = "[]" and fs = fs])
    show "fs = [] @ fs" by simp
    show "fieldLoop fs (VStruct t fs) (length ([]::(fieldinfo \<times> gval) list)) [] = Return []"
      using Struct.prems by (simp add: getPatch_Struct)
  next
    fix f t' fs'
    assume "f \<in> set fs" "snd f = VStruct t' fs'"
      "getPatchPayloadFromUpdate (snd f) (snd f) = Return []"
    then show "stableRecord (snd f)" using Struct.IH by blast
  qed
  then show ?case by simp
next
  case (Other v)
  then show ?case by (simp add: getPatch_not_Struct)
qed


section \<open>The laws of the diff engine\<close>

lemmas eval_diff = getPatchPayloadFromUpdate.simps fieldLoop.simps Interface_def neq_def asValue_def
  splicePayload_def volumeValue_def EntityValue_def taggedField_def privateField_def
  embeddedField_def plainField_def newEntity_def DeepEqual.simps stringSliceValue_def
  shelfValue_def boardValue_def

text \<open>
  C7. The diff of a record against itself is the empty payload exactly when the record
  is stable: no visited field holds a NaN or a func or, in a field of interface type, a
  struct, and every record nested in a visited field is stable in the same sense. A
  visited slice or map is never reported, whatever it holds: it is deeply equal to
  itself. For any other record the diff against itself panics or reports a field.
\<close>

theorem diff_self_empty_iff:
  "getPatchPayloadFromUpdate A A = Return [] \<longleftrightarrow> stableRecord A"
  using diff_self_empty diff_self_empty_conv by blast

theorem diff_self_empty_iff_witness:
  "stableRecord (volumeValue ''a'' (FNum 4) (10, [''x'']) ''OK'' 1) \<and>
   getPatchPayloadFromUpdate (volumeValue ''a'' (FNum 4) (10, [''x'']) ''OK'' 1)
     (volumeValue ''a'' (FNum 4) (10, [''x'']) ''OK'' 1) = Return []"
proof -
  have s: "stableRecord (volumeValue ''a'' (FNum 4) (10, [''x'']) ''OK'' 1)"
    by (simp add: eval_diff stableRecord.simps visited_def)
  show ?thesis
    using s diff_self_empty_iff [of "volumeValue ''a'' (FNum 4) (10, [''x'']) ''OK'' 1"] by simp
qed

text \<open>
  A volume whose capacity is a NaN: \<^verbatim>\<open>originalValue != currentValue\<close> holds for the
  field although both snapshots are the same, and the diff reports it.
\<close>

theorem diff_self_NaN_counterexample:
  "getPatchPayloadFromUpdate (volumeValue ''a'' FNaN (10, [''x'']) ''OK'' 1)
     (volumeValue ''a'' FNaN (10, [''x'']) ''OK'' 1)
   = Return [(''CapacityGiB'', PVal (VFloat ''float64'' FNaN))]"
  by (simp add: eval_diff)

text \<open>
  C8. Let two records differ at most in the values of fields of pointer type, each such
  field being a field of the record itself or of a record nested in it through fields
  of struct type (\<open>ptrVariant\<close>). Then the diff of the first against the second is the
  diff of the first against itself: the value of such a field has no influence on the
  payload. It is the empty payload whenever the first record is stable.
\<close>

theorem diff_ignores_pointer_fields:
  assumes "ptrVariant A B"
  shows "getPatchPayloadFromUpdate A B = getPatchPayloadFromUpdate A A \<and>
         (stableRecord A \<longrightarrow> getPatchPayloadFromUpdate A B = Return [])"
  using assms diff_variant diff_self_empty by simp

theorem diff_ignores_pointer_fields_witness:
  "ptrVariant (volumeValue ''a'' (FNum 4) (10, [''x'']) ''OK'' 1)
     (volumeValue ''a'' (FNum 4) (10, [''x'']) ''OK'' 2) \<and>
   stableRecord (volumeValue ''a'' (FNum 4) (10, [''x'']) ''OK'' 1) \<and>
   getPatchPayloadFromUpdate (volumeValue ''a'' (FNum 4) (10, [''x'']) ''OK'' 1)
     (volumeValue ''a'' (FNum 4) (10, [''x'']) ''OK'' 2) = Return []"
proof -
  have v: "ptrVariant (volumeValue ''a'' (FNum 4) (10, [''x'']) ''OK'' 1)
             (volumeValue ''a'' (FNum 4) (10, [''x'']) ''OK'' 2)"
    by (simp add: eval_diff ptrVariant.simps)
  have s: "stableRecord (volumeValue ''a'' (FNum 4) (10, [''x'']) ''OK'' 1)"
    by (simp add: eval_diff stableRecord.simps visited_def)
  from diff_ignores_pointer_fields [OF v] s
  have "getPatchPayloadFromUpdate (volumeValue ''a'' (FNum 4) (10, [''x'']) ''OK'' 1)
          (volumeValue ''a'' (FNum 4) (10, [''x'']) ''OK'' 2) = Return []"
    by blast
  then show ?thesis using v s by blast
qed

text \<open>
  Two volumes that differ only in the pointer \<^verbatim>\<open>Owner\<close>, with a NaN as capacity: the
  payload is not empty. And two shelves that differ only in the pointer \<^verbatim>\<open>Drive\<close> of
  the bay in their slice, the drives having different names: the slices are not deeply
  equal and the payload holds the new slice.
\<close>

theorem diff_pointer_fields_NaN_counterexample:
  "ptrVariant (volumeValue ''a'' FNaN (10, [''x'']) ''OK'' 1)
     (volumeValue ''a'' FNaN (10, [''x'']) ''OK'' 2) \<and>
   getPatchPayloadFromUpdate (volumeValue ''a'' FNaN (10, [''x'']) ''OK'' 1)
     (volumeValue ''a'' FNaN (10, [''x'']) ''OK'' 2)
   = Return [(''CapacityGiB'', PVal (VFloat ''float64'' FNaN))] \<and>
   getPatchPayloadFromUpdate (shelfValue 1 5 ''d1'') (shelfValue 2 6 ''d2'')
   = Return [(''Bays'', PVal (VSlice ''[]Bay'' (Some (2,
       [VStruct ''Bay''
          [(plainField ''Drive'' KPtr,
              VPtr ''*Drive'' (Some (6,
                VStruct ''Drive'' [(plainField ''Name'' KString, VString ''string'' ''d2'')])))]]))))]"
  by (simp add: eval_diff ptrVariant.simps)

lemma volume_run:
  "getPatchPayloadFromUpdate (volumeValue ''a'' (FNum 4) (10, [''x'']) ''OK'' 1)
     (volumeValue ''b'' (FNum 4) (20, [''x'', ''y'']) ''Warning'' 1) = Return volumeDiff"
  by (simp add: eval_diff volumeDiff_def)



theorem Update_validate_then_send_witness:
  "Update volumeEntity (volumeValue ''a'' (FNum 4) (10, [''x'']) ''OK'' 1)
     (volumeValue ''b'' (FNum 4) (20, [''x'', ''y'']) ''Warning'' 1) [''Name'', ''Status''] (map fst)
     = (Return (Some (Errorf ''Tags field is read only'')), volumeEntity, []) \<and>
   snd (snd (Update volumeEntity (volumeValue ''a'' (FNum 4) (10, [''x'']) ''OK'' 1)
     (volumeValue ''b'' (FNum 4) (20, [''x'', ''y'']) ''Warning'' 1) [''Name'', ''Status'', ''Tags''] (map fst)))
     = [PatchReq ''/redfish/v1/Volumes/1'' (PMap volumeDiff) []]"
proof -
  have keys: "map fst volumeDiff = [''Name'', ''Tags'', ''Status'']"
    by (simp add: volumeDiff_def)
  note u = Update_validate_then_send [where order = "map fst", OF volume_run refl]
  from u [of "[''Name'', ''Status'']" volumeEntity] keys
  have a: "Update volumeEntity (volumeValue ''a'' (FNum 4) (10, [''x'']) ''OK'' 1)
     (volumeValue ''b'' (FNum 4) (20, [''x'', ''y'']) ''Warning'' 1) [''Name'', ''Status''] (map fst)
     = (Return (Some (Errorf ''Tags field is read only'')), volumeEntity, [])"
    by auto
  from u [of "[''Name'', ''Status'', ''Tags'']" volumeEntity] keys
  have "Update volumeEntity (volumeValue ''a'' (FNum 4) (10, [''x'']) ''OK'' 1)
     (volumeValue ''b'' (FNum 4) (20, [''x'', ''y'']) ''Warning'' 1) [''Name'', ''Status'', ''Tags''] (map fst)
     = Patch volumeEntity (ODataID volumeEntity) (PMap volumeDiff)"
    by (simp add: volumeDiff_def)
  then have b: "snd (snd (Update volumeEntity (volumeValue ''a'' (FNum 4) (10, [''x'']) ''OK'' 1)
     (volumeValue ''b'' (FNum 4) (20, [''x'', ''y'']) ''Warning'' 1) [''Name'', ''Status'', ''Tags''] (map fst)))
     = [PatchReq ''/redfish/v1/Volumes/1'' (PMap volumeDiff) []]"
    by (simp add: Patch_def volumeEntity_def newEntity_def stubClient_def)
  show ?thesis using a b by simp
qed


section \<open>The concurrency-control state\<close>

lemma saveEtag_fail:
  "fst (saveEtag e cl resp) \<noteq> Return None \<Longrightarrow> snd (saveEtag e cl resp) = e"
  by (auto simp: saveEtag_def split: option.splits list.splits)

lemma Get_fail_entity:
  "fst (Get unmarshal rt e c uri payload) \<noteq> Return None \<Longrightarrow>
   fst (snd (Get unmarshal rt e c uri payload)) = e"
  by (auto simp: Get_def saveEtag_fail split: option.splits sum.splits prod.splits)

lemma Get2_fail_entity:
  "fst (Get2 unmarshal e c uri payload) \<noteq> Return None \<Longrightarrow>
   fst (snd (Get2 unmarshal e c uri payload)) = e"
  by (auto simp: Get2_def saveEtag_fail split: option.splits sum.splits prod.splits)

lemma Get_success:
  assumes "Get unmarshal rt e c uri payload = (Return None, e', payload', reqs)"
  shows "\<exists>cl resp check. c = Some cl \<and> clientGet cl uri = Inr resp \<and> readCheck resp = Inr check \<and>
           unmarshal (Marshal (map_option (normalize rt) check)) payload = (None, payload') \<and>
           saveEtag e cl resp = (Return None, e') \<and> reqs = [GetReq uri]"
  using assms
  by (auto simp: Get_def split: option.splits sum.splits prod.splits intro: prod_eqI)

lemma Get2_success:
  assumes "Get2 unmarshal e c uri payload = (Return None, e', payload', reqs)"
  shows "\<exists>cl resp checkID. c = Some cl \<and> clientGet cl uri = Inr resp \<and>
           readCheckStruct resp = Inr checkID \<and>
           unmarshal (JObj [(''id'', marshalValue checkID)]) payload = (None, payload') \<and>
           saveEtag e cl resp = (Return None, e') \<and> reqs = [GetReq uri]"
  using assms
  by (auto simp: Get2_def asInt_def split: option.splits sum.splits prod.splits intro: prod_eqI)


lemma Patch_entity:
  "fst (snd (Patch e uri payload)) =
     (if etag e \<noteq> [] \<and> \<not> disableEtagMatch e \<and> stripEtagQuotes e
      then e\<lparr>etag := Trim (etag e) [dquote]\<rparr> else e)"
  by (simp add: Patch_def split: option.splits sum.splits)

lemma Post_entity:
  "fst (snd (Post e uri payload)) =
     (if etag e \<noteq> [] \<and> \<not> disableEtagMatch e \<and> stripEtagQuotes e
      then e\<lparr>etag := Trim (etag e) [dquote]\<rparr> else e)"
  by (simp add: Post_def split: option.splits sum.splits)

text \<open>
  C4. Patch and Post leave both flags of the entity as they are. They leave the stored
  version token as it is except when the token is known, version checking is on and
  quote stripping is on: then they replace the stored token by the token trimmed of its
  surrounding quote characters. A Get, of either version, that does not return nil (it
  returns an error or panics) leaves the whole entity as it is.
\<close>

theorem Patch_Post_state:
  "stripEtagQuotes (fst (snd (Patch e uri payload))) = stripEtagQuotes e \<and>
   disableEtagMatch (fst (snd (Patch e uri payload))) = disableEtagMatch e \<and>
   etag (fst (snd (Patch e uri payload))) =
     (if etag e \<noteq> [] \<and> \<not> disableEtagMatch e \<and> stripEtagQuotes e
      then Trim (etag e) [dquote] else etag e) \<and>
   stripEtagQuotes (fst (snd (Post e uri payload))) = stripEtagQuotes e \<and>
   disableEtagMatch (fst (snd (Post e uri payload))) = disableEtagMatch e \<and>
   etag (fst (snd (Post e uri payload))) =
     (if etag e \<noteq> [] \<and> \<not> disableEtagMatch e \<and> stripEtagQuotes e
      then Trim (etag e) [dquote] else etag e) \<and>
   (fst (Get unmarshal rt e c uri target) \<noteq> Return None \<longrightarrow>
      fst (snd (Get unmarshal rt e c uri target)) = e) \<and>
   (fst (Get2 unmarshal e c uri target) \<noteq> Return None \<longrightarrow>
      fst (snd (Get2 unmarshal e c uri target)) = e)"
  using Get_fail_entity [of unmarshal rt e c uri target]
    Get2_fail_entity [of unmarshal e c uri target]
  by (simp add: Patch_entity Post_entity)

theorem Patch_Post_state_witness:
  "etag (fst (snd (Patch (volumeEntity\<lparr>etag := ''W/1''\<rparr>) ''/redfish/v1/Volumes/1'' (PMap volumeDiff)))) = ''W/1'' \<and>
   fst (Get (Unmarshal entityShape) amd64 (volumeEntity\<lparr>etag := ''W/1''\<rparr>) None ''/redfish/v1/Volumes/1'' (zeroRecord entityShape)) = Panic \<and>
   fst (snd (Get (Unmarshal entityShape) amd64 (volumeEntity\<lparr>etag := ''W/1''\<rparr>) None ''/redfish/v1/Volumes/1'' (zeroRecord entityShape))) = volumeEntity\<lparr>etag := ''W/1''\<rparr>"
proof -
  have p: "fst (Get (Unmarshal entityShape) amd64 (volumeEntity\<lparr>etag := ''W/1''\<rparr>) None ''/redfish/v1/Volumes/1'' (zeroRecord entityShape)) = Panic"
    by (simp add: Get_def)
  show ?thesis
    using p Patch_Post_state [of "volumeEntity\<lparr>etag := ''W/1''\<rparr>" "''/redfish/v1/Volumes/1''"
        "PMap volumeDiff" "Unmarshal entityShape" amd64 None "zeroRecord entityShape"]
    by (simp add: volumeEntity_def newEntity_def)
qed

text \<open>
  A Patch on an entity that holds the token \<^verbatim>\<open>"abc123"\<close>, quotes included, with quote
  stripping on: after the call the entity holds \<^verbatim>\<open>abc123\<close>.
\<close>

theorem Patch_trims_stored_token_counterexample:
  "etag (fst (snd (Patch (volumeEntity\<lparr>etag := dquote # ''abc123'' @ [dquote], stripEtagQuotes := True\<rparr>)
      ''/redfish/v1/Volumes/1'' (PMap volumeDiff)))) = ''abc123''"
  by (simp add: Patch_entity volumeEntity_def newEntity_def Trim_def)

section \<open>The collection retriever returns what succeeded and what failed\<close>

lemma getAll_links:
  "getAll rv c links = Return rs \<Longrightarrow>
   map Link rs = links \<and>
   (\<forall>r \<in> set rs. GetDataStorageLineOfService rv c (Link r) = Return (Item r, Error r))"
proof (induction links arbitrary: rs)
  case Nil
  then show ?case by simp
next
  case (Cons l links)
  then show ?case
    by (auto split: outcome.splits prod.splits)
qed

lemma rangeCh_eq:
  "rangeCh rs result failures =
     (result @ map Item (filter (\<lambda>r. Error r = None) rs), foldl (\<lambda>f r. noteFailure r f) failures rs)"
  by (induction rs arbitrary: result failures) (auto simp: noteFailure_def split: option.splits)

lemma payloadKeys_noteFailure:
  "payloadKeys (noteFailure r f) = payloadKeys f \<union> (if Error r = None then {} else {Link r})"
  by (auto simp: noteFailure_def split: option.splits)

lemma failures_keys:
  "payloadKeys (foldl (\<lambda>f r. noteFailure r f) failures rs)
     = payloadKeys failures \<union> Link ` {r \<in> set rs. Error r \<noteq> None}"
proof (induction rs arbitrary: failures)
  case Nil
  show ?case by simp
next
  case (Cons r rs)
  have "payloadKeys (foldl (\<lambda>f r. noteFailure r f) (noteFailure r failures) rs)
        = payloadKeys (noteFailure r failures) \<union> Link ` {r \<in> set rs. Error r \<noteq> None}"
    by (rule Cons)
  then show ?case by (auto simp: payloadKeys_noteFailure split: if_splits)
qed

lemma distinct_noteFailure: "distinct (map fst f) \<Longrightarrow> distinct (map fst (noteFailure r f))"
  by (simp add: noteFailure_def distinct_put split: option.splits)

lemma failures_distinct:
  "distinct (map fst failures) \<Longrightarrow> distinct (map fst (foldl (\<lambda>f r. noteFailure r f) failures rs))"
  by (induction rs arbitrary: failures) (simp_all add: distinct_noteFailure)

lemma length_distinct_keys: "distinct (map fst m) \<Longrightarrow> length m = card (payloadKeys m)"
  by (metis distinct_card length_map payloadKeys_def set_map)


lemma getAll_items:
  "getAll rv c links = Return rs \<Longrightarrow>
   map Item (filter (\<lambda>r. Error r = None) rs) =
     map (fetchedItem rv c) (filter (\<lambda>l. \<not> fetchFails rv c l) links)"
proof (induction links arbitrary: rs)
  case Nil
  then show ?case by simp
next
  case (Cons l links)
  from Cons.prems obtain d e rs' where
    g: "GetDataStorageLineOfService rv c l = Return (d, e)" and
    r: "getAll rv c links = Return rs'" and
    rs: "rs = \<lparr>Item = d, Link = l, Error = e\<rparr> # rs'"
    by (auto split: outcome.splits prod.splits)
  have item: "fetchedItem rv c l = d" using g by (simp add: fetchedItem_def)
  have fails: "fetchFails rv c l = (e \<noteq> None)"
    using g by (cases e) (simp_all add: fetchFails_def)
  show ?case using Cons.IH [OF r] rs item fails by simp
qed

lemma getAll_failing:
  assumes "getAll rv c links = Return rs"
  shows "Link ` {r \<in> set rs. Error r \<noteq> None} = {l \<in> set links. fetchFails rv c l}"
proof -
  have l: "map Link rs = links"
    and g: "\<forall>r \<in> set rs. GetDataStorageLineOfService rv c (Link r) = Return (Item r, Error r)"
    using getAll_links [OF assms] by auto
  have f: "\<And>r. r \<in> set rs \<Longrightarrow> (Error r \<noteq> None) = fetchFails rv c (Link r)"
    using g by (auto simp: fetchFails_def split: option.splits)
  have "set links = Link ` set rs" using l by auto
  then show ?thesis using f by auto
qed

lemma ListReferenced_Return:
  assumes ne: "link \<noteq> []"
      and walk: "CollectList c link = (members, werr)"
      and ret: "ListReferencedDataStorageLineOfServices CollectList arrival rv c link = Return (result, err)"
  shows "\<exists>rs failures0.
           getAll rv c (arrival members) = Return rs \<and>
           result = map Item (filter (\<lambda>r. Error r = None) rs) \<and>
           failures0 = foldl (\<lambda>f r. noteFailure r f) [] rs \<and>
           err = (let failures = (case werr of Some e \<Rightarrow> put link e failures0 | None \<Rightarrow> failures0)
                  in if failures = [] then None else Some (CollectionError failures))"
  using assms
  by (auto simp: ListReferencedDataStorageLineOfServices_def rangeCh_eq Let_def
           split: outcome.splits if_splits option.splits)

text \<open>
  C2. Let the walk of a collection succeed and enumerate the pairwise distinct member
  links \<open>members\<close>, and let the results arrive in any order. When the call returns, the
  keys of the failure map are exactly the member links whose fetch fails, one entry
  each, so the map has as many entries as fetches fail; the result list holds the
  fetched value of every other member link, in order of arrival, so it has as many
  entries as there are members less the failing ones; and the error is nil when the
  failure map is empty and the aggregate error carrying the map otherwise.
\<close>

theorem ListReferenced_partition:
  assumes ne: "link \<noteq> []"
      and walk: "CollectList c link = (members, None)"
      and dist: "distinct members"
      and arr: "mset (arrival members) = mset members"
      and ret: "ListReferencedDataStorageLineOfServices CollectList arrival rv c link = Return (result, err)"
  shows "\<exists>failures.
           err = (if failures = [] then None else Some (CollectionError failures)) \<and>
           distinct (map fst failures) \<and>
           payloadKeys failures = {l \<in> set members. fetchFails rv c l} \<and>
           length failures = length (filter (fetchFails rv c) members) \<and>
           length result = length members - length (filter (fetchFails rv c) members) \<and>
           result = map (fetchedItem rv c) (filter (\<lambda>l. \<not> fetchFails rv c l) (arrival members))"
proof -
  from ListReferenced_Return [OF ne walk ret] obtain rs where
    rs: "getAll rv c (arrival members) = Return rs" and
    res: "result = map Item (filter (\<lambda>r. Error r = None) rs)" and
    err: "err = (if foldl (\<lambda>f r. noteFailure r f) [] rs = [] then None
                 else Some (CollectionError (foldl (\<lambda>f r. noteFailure r f) [] rs)))"
    by (auto simp: Let_def)
  let ?failures = "foldl (\<lambda>f r. noteFailure r f) [] rs"
  have sets: "set (arrival members) = set members" using arr by (metis set_mset_mset)
  have d: "distinct (map fst ?failures)" by (rule failures_distinct) simp
  have keys: "payloadKeys ?failures = {l \<in> set members. fetchFails rv c l}"
    using failures_keys [of "[]" rs] getAll_failing [OF rs] sets by simp
  have "length ?failures = card {l \<in> set members. fetchFails rv c l}"
    using length_distinct_keys [OF d] keys by simp
  also have "\<dots> = length (filter (fetchFails rv c) members)"
    using dist by (metis distinct_card distinct_filter set_filter)
  finally have len: "length ?failures = length (filter (fetchFails rv c) members)" .
  have items: "result = map (fetchedItem rv c) (filter (\<lambda>l. \<not> fetchFails rv c l) (arrival members))"
    using res getAll_items [OF rs] by simp
  have "length (filter (\<lambda>l. \<not> fetchFails rv c l) (arrival members)) =
        length (filter (\<lambda>l. \<not> fetchFails rv c l) members)"
    using arr by (metis mset_filter size_mset)
  moreover have "length (filter (\<lambda>l. \<not> fetchFails rv c l) members) =
        length members - length (filter (fetchFails rv c) members)"
    using sum_length_filter_compl [of "fetchFails rv c" members] by simp
  ultimately have lres: "length result = length members - length (filter (fetchFails rv c) members)"
    using items by simp
  show ?thesis using err d keys len lres items by blast
qed

text \<open>
  C10. When the walk of the collection fails, the call returns an aggregate error whose
  failure map has the link of the collection as a key, beside the member links whose
  fetch fails; the value at that key is the error of the walk (unless the link of the
  collection is itself a failing member link).
\<close>

theorem ListReferenced_walk_error:
  assumes ne: "link \<noteq> []"
      and walk: "CollectList c link = (members, Some werr)"
      and ret: "ListReferencedDataStorageLineOfServices CollectList arrival rv c link = Return (result, err)"
  shows "\<exists>failures.
           err = Some (CollectionError failures) \<and>
           link \<in> payloadKeys failures \<and>
           payloadKeys failures = insert link {l \<in> set (arrival members). fetchFails rv c l} \<and>
           (\<not> fetchFails rv c link \<longrightarrow> map_of failures link = Some werr)"
proof -
  from ListReferenced_Return [OF ne walk ret] obtain rs where
    rs: "getAll rv c (arrival members) = Return rs" and
    err: "err = (if put link werr (foldl (\<lambda>f r. noteFailure r f) [] rs) = [] then None
                 else Some (CollectionError (put link werr (foldl (\<lambda>f r. noteFailure r f) [] rs))))"
    by (auto simp: Let_def)
  let ?failures = "put link werr (foldl (\<lambda>f r. noteFailure r f) [] rs)"
  have nonempty: "?failures \<noteq> []"
  proof
    assume "?failures = []"
    then have "payloadKeys ?failures = payloadKeys ([]::(string \<times> error) list)" by (rule arg_cong)
    then show False by simp
  qed
  have keys: "payloadKeys ?failures = insert link {l \<in> set (arrival members). fetchFails rv c l}"
    using failures_keys [of "[]" rs] getAll_failing [OF rs] by simp
  show ?thesis using err nonempty keys by auto
qed

text \<open>
  A walk that fails before it enumerates any member: no member link, no failing fetch,
  and a failure map with one entry.
\<close>

theorem ListReferenced_walk_error_counterexample:
  "ListReferencedDataStorageLineOfServices (\<lambda>c link. ([], Some (TransportError ''timeout'')))
     (\<lambda>links. links) amd64 (Some stubClient) linesOfService
   = Return ([], Some (CollectionError [(linesOfService, TransportError ''timeout'')]))"
  by (simp add: ListReferencedDataStorageLineOfServices_def linesOfService_def)


lemma fetch_ok:
  "uri \<noteq> ''/redfish/v1/Lines/2'' \<Longrightarrow>
   GetDataStorageLineOfService rv (Some flakyClient) uri = Return (fetchedLine, None)"
  by (simp add: GetDataStorageLineOfService_def Get_def flakyClient_def okResponse_def
        readCheck_def Marshal_def UnmarshalJSON_def saveEtag_def SetClient_def fetchedLine_def
        newEntity_def)

lemma fetch_timeout:
  "GetDataStorageLineOfService rv (Some flakyClient) ''/redfish/v1/Lines/2'' =
     Return ((newEntity, zeroRecord shapeDataStorageLineOfService), Some (TransportError ''timeout''))"
  by (simp add: GetDataStorageLineOfService_def Get_def flakyClient_def newEntity_def)

lemma three_lines:
  "ListReferencedDataStorageLineOfServices
     (\<lambda>c link. ([''/redfish/v1/Lines/1'', ''/redfish/v1/Lines/2'', ''/redfish/v1/Lines/3''], None))
     rev amd64 (Some flakyClient) linesOfService
   = Return ([fetchedLine, fetchedLine],
             Some (CollectionError [(''/redfish/v1/Lines/2'', TransportError ''timeout'')]))"
  by (simp add: ListReferencedDataStorageLineOfServices_def linesOfService_def fetch_ok fetch_timeout)

theorem ListReferenced_partition_witness:
  "ListReferencedDataStorageLineOfServices
     (\<lambda>c link. ([''/redfish/v1/Lines/1'', ''/redfish/v1/Lines/2'', ''/redfish/v1/Lines/3''], None))
     rev amd64 (Some flakyClient) linesOfService
   = Return ([fetchedLine, fetchedLine],
             Some (CollectionError [(''/redfish/v1/Lines/2'', TransportError ''timeout'')])) \<and>
   length (filter (fetchFails amd64 (Some flakyClient))
     [''/redfish/v1/Lines/1'', ''/redfish/v1/Lines/2'', ''/redfish/v1/Lines/3'']) = 1 \<and>
   {l \<in> set [''/redfish/v1/Lines/1'', ''/redfish/v1/Lines/2'', ''/redfish/v1/Lines/3''].
      fetchFails amd64 (Some flakyClient) l} = {''/redfish/v1/Lines/2''}"
proof -
  let ?members = "[''/redfish/v1/Lines/1'', ''/redfish/v1/Lines/2'', ''/redfish/v1/Lines/3'']"
  have ne: "linesOfService \<noteq> []" by (simp add: linesOfService_def)
  have walk: "(\<lambda>c link. (?members, None)) (Some flakyClient) linesOfService = (?members, None)"
    by simp
  have dist: "distinct ?members" by simp
  have arr: "mset (rev ?members) = mset ?members" by simp
  from ListReferenced_partition [OF ne walk dist arr three_lines]
  obtain failures where
    e: "Some (CollectionError [(''/redfish/v1/Lines/2'', TransportError ''timeout'')]) =
          (if failures = [] then None else Some (CollectionError failures))" and
    k: "payloadKeys failures = {l \<in> set ?members. fetchFails amd64 (Some flakyClient) l}" and
    l: "length failures = length (filter (fetchFails amd64 (Some flakyClient)) ?members)"
    by blast
  from e have "failures = [(''/redfish/v1/Lines/2'', TransportError ''timeout'')]"
    by (simp split: if_splits)
  then show ?thesis using k l three_lines by simp
qed

lemma failed_page:
  "ListReferencedDataStorageLineOfServices
     (\<lambda>c link. ([''/redfish/v1/Lines/2''], Some (TransportError ''page 2'')))
     (\<lambda>links. links) amd64 (Some flakyClient) linesOfService
   = Return ([], Some (CollectionError [(''/redfish/v1/Lines/2'', TransportError ''timeout''),
                                        (linesOfService, TransportError ''page 2'')]))"
  by (simp add: ListReferencedDataStorageLineOfServices_def linesOfService_def fetch_timeout)

theorem ListReferenced_walk_error_witness:
  "ListReferencedDataStorageLineOfServices
     (\<lambda>c link. ([''/redfish/v1/Lines/2''], Some (TransportError ''page 2'')))
     (\<lambda>links. links) amd64 (Some flakyClient) linesOfService
   = Return ([], Some (CollectionError [(''/redfish/v1/Lines/2'', TransportError ''timeout''),
                                        (linesOfService, TransportError ''page 2'')])) \<and>
   map_of [(''/redfish/v1/Lines/2'', TransportError ''timeout''),
           (linesOfService, TransportError ''page 2'')] linesOfService
     = Some (TransportError ''page 2'')"
proof -
  have ne: "linesOfService \<noteq> []" by (simp add: linesOfService_def)
  have walk: "(\<lambda>c link. ([''/redfish/v1/Lines/2''], Some (TransportError ''page 2'')))
                (Some flakyClient) linesOfService
              = ([''/redfish/v1/Lines/2''], Some (TransportError ''page 2''))"
    by simp
  have ok: "\<not> fetchFails amd64 (Some flakyClient) linesOfService"
    by (simp add: fetchFails_def fetch_ok linesOfService_def)
  from ListReferenced_walk_error [OF ne walk failed_page] ok
  have "map_of [(''/redfish/v1/Lines/2'', TransportError ''timeout''),
           (linesOfService, TransportError ''page 2'')] linesOfService
     = Some (TransportError ''page 2'')"
    by auto
  then show ?thesis using failed_page by simp
qed


section \<open>Get: what reaches the record\<close>

lemma ilog_nonneg: "0 \<le> ilog b n"
proof (induction b n rule: ilog.induct)
  case (1 b n)
  then show ?case by (subst ilog.simps) auto
qed

lemma ilog2_bound: "n < 2 ^ Suc k \<Longrightarrow> ilog 2 n \<le> int k"
proof (induction k arbitrary: n)
  case 0
  then show ?case by (subst ilog.simps) simp
next
  case (Suc k)
  show ?case
  proof (cases "n < 2")
    case True
    then show ?thesis by (subst ilog.simps) simp
  next
    case False
    have "n div 2 < 2 ^ Suc k" using Suc.prems by simp
    then have "ilog 2 (n div 2) \<le> int k" by (rule Suc.IH)
    then show ?thesis using False by (subst ilog.simps) simp
  qed
qed

lemma roundEven_of_int [simp]: "roundEven (of_int z) = z"
  by (simp add: roundEven_def)

lemma float64_of_int_small:
  assumes "\<bar>i\<bar> < 2 ^ 53"
  shows "float64 (of_int i) = Some (of_int i)"
proof (cases "i = 0")
  case True
  then show ?thesis by (simp add: float64_def)
next
  case False
  define j where "j = \<bar>i\<bar>"
  have j: "1 \<le> j" "j < 2 ^ Suc 52" using False assms by (auto simp: j_def)
  have a: "\<bar>of_int i :: rat\<bar> = of_int j" by (simp add: j_def)
  have fl: "floorLog 2 (of_int j) = ilog 2 j" using j(1) by (simp add: floorLog_def)
  define e where "e = max (ilog 2 j - 52) (- 1074)"
  have e: "e \<le> 0" "- 1074 \<le> e" using ilog2_bound [OF j(2)] by (auto simp: e_def)
  define k where "k = nat (- e)"
  have p: "pow 2 e = 1 / 2 ^ k"
    using e by (cases "e = 0") (auto simp: pow_def k_def)
  have q: "(of_int j :: rat) / pow 2 e = of_int (j * 2 ^ k)" by (simp add: p)
  have v: "of_int (j * 2 ^ k) * pow 2 e = (of_int j :: rat)" by (simp add: p)
  have s: "sgn (of_int i :: rat) * of_int j = of_int i"
    by (simp add: j_def sgn_if)
  have nz: "(of_int i :: rat) \<noteq> 0" using False by simp
  have "float64 (of_int i) = Some (sgn (of_int i) * (of_int (roundEven (of_int j / pow 2 e)) * pow 2 e))"
    using nz e unfolding float64_def a fl e_def [symmetric] Let_def by simp
  then show ?thesis by (simp only: q roundEven_of_int v s)
qed

lemma float64_2_53: "float64 (2 ^ 53) = Some (2 ^ 53)" "float64 (- (2 ^ 53)) = Some (- (2 ^ 53))"
  by code_simp+

lemma float64_of_int:
  assumes "\<bar>i\<bar> \<le> 2 ^ 53"
  shows "float64 (of_int i) = Some (of_int i)"
proof (cases "\<bar>i\<bar> < 2 ^ 53")
  case True
  then show ?thesis by (rule float64_of_int_small)
next
  case False
  then have "i = 2 ^ 53 \<or> i = - (2 ^ 53)" using assms by auto
  then show ?thesis using float64_2_53 by auto
qed

lemma goInt_trunc:
  assumes "(0 \<le> x \<and> of_int i \<le> x \<and> x < of_int i + 1) \<or> (x < 0 \<and> of_int i - 1 < x \<and> x \<le> of_int i)"
      and "- (2 ^ 63) \<le> i" "i < 2 ^ 63"
  shows "goInt rt x = i"
proof -
  have "(if 0 \<le> x then \<lfloor>x\<rfloor> else \<lceil>x\<rceil>) = i"
    using assms(1) by (auto simp: floor_unique ceiling_unique)
  then show ?thesis using assms(2,3) by (simp add: goInt_def)
qed

lemma goInt_of_int: "- (2 ^ 63) \<le> i \<Longrightarrow> i < 2 ^ 63 \<Longrightarrow> goInt rt (of_int i) = i"
  by (simp add: goInt_def)

lemma float64_examples:
  "float64 7 = Some 7" "float64 (15 / 2) = Some (15 / 2)"
  "float64 9007199254740993 = Some 9007199254740992"
  "float64 (2 ^ 63 - 1) = Some (2 ^ 63)"
  by code_simp+

lemma shortest_examples:
  "shortest 7 = 7" "shortest (2 ^ 63) = 9223372036854776000"
  by code_simp+

lemma zip_fst_map:
  "zip (map fst m) (map f (map snd m)) = map (\<lambda>kv. (fst kv, f (snd kv))) m"
  by (induction m) auto

lemma zip_fst_map_comp:
  "zip (map fst m) (map (f \<circ> snd) m) = map (\<lambda>kv. (fst kv, f (snd kv))) m"
  by (induction m) auto

lemma map_of_map_values:
  "map_of (map (\<lambda>kv. (fst kv, f (snd kv))) m) k = map_option f (map_of m k)"
  by (induction m) auto

lemma foldl_put_map_of:
  "map_of (foldl (\<lambda>m kv. put (fst kv) (snd kv) m) acc kvs) k =
     (case map_of (rev kvs) k of Some v \<Rightarrow> Some v | None \<Rightarrow> map_of acc k)"
proof (induction kvs arbitrary: acc)
  case Nil
  show ?case by simp
next
  case (Cons a kvs)
  show ?case by (simp add: Cons map_add_def split: option.splits)
qed

lemma map_of_lastWins: "map_of (lastWins kvs) k = map_of (rev kvs) k"
  by (simp add: lastWins_def foldl_put_map_of split: option.splits)

lemma foldl_put_keys:
  "payloadKeys (foldl (\<lambda>m kv. put (fst kv) (snd kv) m) acc kvs) = payloadKeys acc \<union> payloadKeys kvs"
  by (induction kvs arbitrary: acc) auto

lemma lastWins_keys: "payloadKeys (lastWins kvs) = payloadKeys kvs"
  by (simp add: lastWins_def foldl_put_keys)

lemma foldl_put_distinct:
  "distinct (map fst acc) \<Longrightarrow> distinct (map fst (foldl (\<lambda>m kv. put (fst kv) (snd kv) m) acc kvs))"
  by (induction kvs arbitrary: acc) (simp_all add: distinct_put)

lemma lastWins_distinct: "distinct (map fst (lastWins kvs))"
  by (simp add: lastWins_def foldl_put_distinct)

lemma map_of_checkOf: "map_of (checkOf m) k = map_option anyValue (map_of (rev m) k)"
proof -
  have "rev (map (\<lambda>kv. (fst kv, anyValue (snd kv))) m) = map (\<lambda>kv. (fst kv, anyValue (snd kv))) (rev m)"
    by (rule rev_map)
  then show ?thesis
    by (simp only: checkOf_def map_of_lastWins zip_fst_map map_of_map_values)
qed

lemma checkOf_keys: "payloadKeys (checkOf m) = payloadKeys m"
  by (simp only: checkOf_def lastWins_keys zip_fst_map) (simp add: payloadKeys_def image_image)

lemma checkOf_distinct: "distinct (map fst (checkOf m))"
  by (simp add: checkOf_def lastWins_distinct)

lemma anyValue_JStr: "anyValue v = JStr s \<longleftrightarrow> v = JStr s"
  by (cases v) (auto split: option.splits)

lemma overflows_member:
  "\<not> overflows (JObj m) \<Longrightarrow> (k, JNum n) \<in> set m \<Longrightarrow> \<exists>x. float64 n = Some x"
  by (force simp: list_ex_iff)

lemma map_of_floatToString:
  "map_of (floatToString rt m key) k = (if k = key then idToString rt (map_of m key) else map_of m k)"
  by (auto simp: floatToString_def idToString_def split: option.splits json.splits)

lemma map_of_wrapInSlice:
  "k \<noteq> key \<Longrightarrow> map_of (wrapInSlice m key) k = map_of m k"
  by (auto simp: wrapInSlice_def split: option.splits json.splits)

lemma map_of_checkDrives_Id:
  "map_of (checkDrives rt m) ''Id'' = idToString rt (map_of m ''Id'')"
  by (auto simp: checkDrives_def Let_def map_of_floatToString split: option.splits json.splits)

lemma map_of_checkMemory_Id: "map_of (checkMemory rt m) ''Id'' = map_of m ''Id''"
  by (auto simp: checkMemory_def split: option.splits json.splits)

lemma map_of_checkManager_Id: "map_of (checkManager m) ''Id'' = map_of m ''Id''"
  by (auto simp: checkManager_def split: option.splits json.splits)

lemma idToString_idem [simp]: "idToString rt (idToString rt v) = idToString rt v"
  by (auto simp: idToString_def split: option.splits json.splits)

lemma map_of_normalize_Id:
  "map_of (normalize rt check) ''Id'' =
     (case map_of check ''@odata.id'' of
        Some (JStr odataId) \<Rightarrow>
          if Contains odataId ''/redfish/v1/Chassis/1/Drives/'' \<or>
             Contains odataId ''/redfish/v1/Chassis/1/PCIeDevices/''
          then idToString rt (map_of check ''Id'') else map_of check ''Id''
      | _ \<Rightarrow> map_of check ''Id'')"
  by (simp add: normalize_def Let_def map_of_floatToString map_of_wrapInSlice
        map_of_checkDrives_Id map_of_checkMemory_Id map_of_checkManager_Id
      split: option.splits json.splits)

lemma map_of_Some_keys: "map_of m k = Some v \<Longrightarrow> k \<in> payloadKeys m"
  using map_of_None_keys [of m k] by simp

lemma payloadKeys_put_known: "map_of m k = Some v \<Longrightarrow> payloadKeys (put k w m) = payloadKeys m"
  using map_of_Some_keys [of m k v] by (simp add: insert_absorb)

lemma distinct_put_iff: "distinct (map fst (put k v m)) = distinct (map fst m)"
proof (induction m)
  case Nil
  show ?case by simp
next
  case (Cons a m)
  obtain k' v' where a: "a = (k', v')" by (cases a)
  have "(k' \<notin> payloadKeys (put k v m)) = (k' \<notin> payloadKeys m)" if "k \<noteq> k'"
    using that by simp
  then show ?case using Cons a by (auto simp: payloadKeys_def)
qed

lemma floatToString_keys [simp]: "payloadKeys (floatToString rt m key) = payloadKeys m"
  by (auto simp: floatToString_def insert_absorb map_of_Some_keys split: option.splits json.splits)

lemma wrapInSlice_keys [simp]: "payloadKeys (wrapInSlice m key) = payloadKeys m"
  by (auto simp: wrapInSlice_def insert_absorb map_of_Some_keys split: option.splits json.splits)

lemma floatToString_distinct [simp]:
  "distinct (map fst (floatToString rt m key)) = distinct (map fst m)"
  by (auto simp: floatToString_def distinct_put_iff split: option.splits json.splits)

lemma wrapInSlice_distinct [simp]:
  "distinct (map fst (wrapInSlice m key)) = distinct (map fst m)"
  by (auto simp: wrapInSlice_def distinct_put_iff split: option.splits json.splits)

lemma checkDrives_keys [simp]: "payloadKeys (checkDrives rt m) = payloadKeys m"
proof -
  have "payloadKeys (put ''Links'' v (floatToString rt m ''Id'')) = payloadKeys m"
    if "map_of (floatToString rt m ''Id'') ''Links'' = Some w" for v w
    using that payloadKeys_put_known [OF that] by simp
  then show ?thesis
    by (auto simp: checkDrives_def Let_def split: option.splits json.splits)
qed

lemma checkDrives_distinct [simp]:
  "distinct (map fst (checkDrives rt m)) = distinct (map fst m)"
  by (auto simp: checkDrives_def Let_def distinct_put_iff split: option.splits json.splits)

lemma checkMemory_keys [simp]: "payloadKeys (checkMemory rt m) = payloadKeys m"
  by (auto simp: checkMemory_def insert_absorb map_of_Some_keys split: option.splits json.splits)

lemma checkMemory_distinct [simp]: "distinct (map fst (checkMemory rt m)) = distinct (map fst m)"
  by (auto simp: checkMemory_def distinct_put_iff split: option.splits json.splits)

lemma checkManager_keys [simp]: "payloadKeys (checkManager m) = payloadKeys m"
  by (auto simp: checkManager_def insert_absorb map_of_Some_keys split: option.splits json.splits)

lemma checkManager_distinct [simp]: "distinct (map fst (checkManager m)) = distinct (map fst m)"
  by (auto simp: checkManager_def distinct_put_iff split: option.splits json.splits)

lemma normalize_keys: "payloadKeys (normalize rt check) = payloadKeys check"
  by (simp add: normalize_def Let_def split: option.splits json.splits)

lemma normalize_distinct: "distinct (map fst (normalize rt check)) = distinct (map fst check)"
  by (simp add: normalize_def Let_def split: option.splits json.splits)

lemma marshal_object:
  "marshalValue (JObj m) = JObj (sort_key fst (map (\<lambda>kv. (fst kv, marshalValue (snd kv))) m))"
  by (simp only: marshalValue.simps zip_fst_map)

lemma marshalled_keys:
  "payloadKeys (sort_key fst (map (\<lambda>kv. (fst kv, marshalValue (snd kv))) m)) = payloadKeys m"
  by (simp add: payloadKeys_def image_image)

lemma marshalled_distinct:
  "distinct (map fst (sort_key fst (map (\<lambda>kv. (fst kv, marshalValue (snd kv))) m)))
     = distinct (map fst m)"
proof -
  have "mset (map fst (sort_key fst (map (\<lambda>kv. (fst kv, marshalValue (snd kv))) m)))
          = mset (map fst m)"
    by (simp add: image_mset.compositionality comp_def)
  then show ?thesis by (rule mset_eq_imp_distinct_iff)
qed

lemma marshalled_member:
  "map_of m k = Some v \<Longrightarrow>
   (k, marshalValue v) \<in> set (sort_key fst (map (\<lambda>kv. (fst kv, marshalValue (snd kv))) m))"
  by (force dest: map_of_SomeD)

lemma store_TString:
  "store TString v old =
     (case v of JNull \<Rightarrow> (old, None) | JStr s \<Rightarrow> (v, None) | _ \<Rightarrow> (old, Some (jsonKind v)))"
  by (cases v) (simp_all add: store.simps)

lemma decodeEntries_error_sticks:
  "decodeEntries fs kvs r (Some e) = (x, r') \<Longrightarrow> x \<noteq> None"
  by (induction kvs arbitrary: r) (auto split: option.splits prod.splits)

lemma decodeEntries_no_error:
  "decodeEntries fs kvs r err = (None, r') \<Longrightarrow> kv \<in> set kvs \<Longrightarrow>
   findField fs (fst kv) = Some (name, TString) \<Longrightarrow>
   snd kv = JNull \<or> (\<exists>s. snd kv = JStr s)"
proof (induction kvs arbitrary: r err)
  case Nil
  then show ?case by simp
next
  case (Cons a kvs)
  show ?case
  proof (cases "kv = a")
    case True
    show ?thesis
    proof (rule ccontr)
      assume "\<not> (snd kv = JNull \<or> (\<exists>s. snd kv = JStr s))"
      then have "\<And>old v. store TString (snd kv) old \<noteq> (v, None)"
        by (cases "snd kv") (simp_all add: store_TString)
      then have "\<exists>r1 e. decodeEntries fs kvs r1 (Some e) = (None, r')"
        using Cons.prems(1,3) True by (cases err) (auto split: prod.splits option.splits)
      then show False using decodeEntries_error_sticks by blast
    qed
  next
    case False
    then have "kv \<in> set kvs" using Cons.prems(2) by simp
    moreover have "\<exists>r1 err1. decodeEntries fs kvs r1 err1 = (None, r')"
      using Cons.prems(1) by (auto split: option.splits prod.splits)
    ultimately show ?thesis using Cons.IH Cons.prems(3) by blast
  qed
qed

lemma decodeEntries_frame:
  "decodeEntries fs kvs r err = (e, r') \<Longrightarrow>
   (\<forall>kv \<in> set kvs. \<forall>f. findField fs (fst kv) = Some f \<longrightarrow> fst f \<noteq> name) \<Longrightarrow>
   map_of r' name = map_of r name"
proof (induction kvs arbitrary: r err)
  case Nil
  then show ?case by simp
next
  case (Cons a kvs)
  then show ?case by (auto split: option.splits prod.splits)
qed

lemma decodeEntries_stores:
  "decodeEntries fs kvs r err = (e, r') \<Longrightarrow> distinct (map fst kvs) \<Longrightarrow>
   (key, JStr s) \<in> set kvs \<Longrightarrow> findField fs key = Some (name, TString) \<Longrightarrow>
   (\<forall>kv \<in> set kvs. fst kv \<noteq> key \<longrightarrow> (\<forall>f. findField fs (fst kv) = Some f \<longrightarrow> fst f \<noteq> name)) \<Longrightarrow>
   map_of r' name = Some (JStr s)"
proof (induction kvs arbitrary: r err)
  case Nil
  then show ?case by simp
next
  case (Cons a kvs)
  show ?case
  proof (cases "a = (key, JStr s)")
    case True
    have notin: "\<forall>kv \<in> set kvs. fst kv \<noteq> key" using Cons.prems(2) True by force
    then have others: "\<forall>kv \<in> set kvs. \<forall>f. findField fs (fst kv) = Some f \<longrightarrow> fst f \<noteq> name"
      using Cons.prems(5) by simp
    have "decodeEntries fs kvs (put name (JStr s) r) err = (e, r')"
      using Cons.prems(1,4) True by (simp add: store_TString)
    from decodeEntries_frame [OF this others] show ?thesis by simp
  next
    case False
    have mem: "(key, JStr s) \<in> set kvs" using False Cons.prems(3) by simp
    then have "key \<in> fst ` set kvs" by force
    then have "fst a \<noteq> key" using Cons.prems(2) by auto
    have "\<exists>r1 err1. decodeEntries fs kvs r1 err1 = (e, r')"
      using Cons.prems(1) by (auto split: option.splits prod.splits)
    then show ?thesis using Cons.IH mem Cons.prems(2,4,5) by auto
  qed
qed

lemma saveEtag_success:
  "saveEtag e cl resp = (Return None, e') \<Longrightarrow>
   client e' = Some cl \<and> etag e' = (case Header resp ''Etag'' of Some (t # ts) \<Rightarrow> t | _ \<Rightarrow> etag e)"
  by (auto simp: saveEtag_def SetClient_def split: option.splits list.splits)

lemma Get_decodes_whole_body:
  assumes "Get unmarshal rt e (Some cl) uri r = (Return None, e', r', reqs)"
      and "clientGet cl uri = Inr resp" "Body resp = Inr (Some (JObj body))"
  shows "\<not> overflows (JObj body) \<and>
         unmarshal (marshalValue (JObj (normalize rt (checkOf body)))) r = (None, r') \<and>
         payloadKeys (normalize rt (checkOf body)) = payloadKeys body \<and>
         client e' = Some cl \<and>
         etag e' = (case Header resp ''Etag'' of Some (t # ts) \<Rightarrow> t | _ \<Rightarrow> etag e)"
proof -
  from Get_success [OF assms(1)] assms(2,3)
  have o: "\<not> overflows (JObj body)"
    and u: "unmarshal (marshalValue (JObj (normalize rt (checkOf body)))) r = (None, r')"
    and s: "saveEtag e cl resp = (Return None, e')"
    by (auto simp: readCheck_def Marshal_def split: if_splits)
  show ?thesis using o u saveEtag_success [OF s] normalize_keys checkOf_keys by auto
qed

lemma Get_populates_string_field:
  assumes "Get (Unmarshal fs) rt e (Some cl) uri r = (Return None, e', r', reqs)"
      and "clientGet cl uri = Inr resp" "Body resp = Inr (Some (JObj body))"
      and "map_of (normalize rt (checkOf body)) key = Some (JStr s)"
      and "findField fs key = Some (name, TString)"
      and "\<forall>kv \<in> set body. fst kv \<noteq> key \<longrightarrow>
             (\<forall>f. findField fs (fst kv) = Some f \<longrightarrow> fst f \<noteq> name)"
  shows "map_of r' name = Some (JStr s)"
proof -
  let ?N = "normalize rt (checkOf body)"
  let ?kvs = "sort_key fst (map (\<lambda>kv. (fst kv, marshalValue (snd kv))) ?N)"
  from Get_decodes_whole_body [OF assms(1-3)]
  have dec: "decodeEntries fs ?kvs r None = (None, r')"
    by (simp add: Unmarshal_def marshal_object del: marshalValue.simps)
  have dk: "distinct (map fst ?kvs)"
    by (simp only: marshalled_distinct normalize_distinct checkOf_distinct)
  have mem: "(key, JStr s) \<in> set ?kvs"
    using marshalled_member [OF assms(4)] by simp
  have keys: "payloadKeys ?kvs = payloadKeys body"
    by (simp only: marshalled_keys normalize_keys checkOf_keys)
  have only': "\<forall>kv \<in> set ?kvs. fst kv \<noteq> key \<longrightarrow>
                 (\<forall>f. findField fs (fst kv) = Some f \<longrightarrow> fst f \<noteq> name)"
  proof (intro ballI impI allI)
    fix kv f
    assume kv: "kv \<in> set ?kvs" "fst kv \<noteq> key" "findField fs (fst kv) = Some f"
    then have "fst kv \<in> payloadKeys body" using keys by (auto simp: payloadKeys_def)
    then obtain kv' where "kv' \<in> set body" "fst kv' = fst kv" by (auto simp: payloadKeys_def)
    then show "fst f \<noteq> name" using assms(6) kv(2,3) by metis
  qed
  show ?thesis by (rule decodeEntries_stores [OF dec dk mem assms(5) only'])
qed


text \<open>
  C5. Let \<open>Get\<close> (the first version) succeed on a body that is an object and decode it
  into a struct whose field \<^verbatim>\<open>Id\<close> is a string, let the \<^verbatim>\<open>Id\<close> of the body, the last one
  if the body repeats the key, be a number \<open>n\<close>, and let no other key of the body select
  the field \<^verbatim>\<open>Id\<close>. Then the \<^verbatim>\<open>@odata.id\<close> of the body is a string that contains
  \<^verbatim>\<open>/redfish/v1/Chassis/1/Drives/\<close> or \<^verbatim>\<open>/redfish/v1/Chassis/1/PCIeDevices/\<close>; \<open>n\<close>
  is in the range of \<^verbatim>\<open>float64\<close>, and with \<open>x\<close> the \<^verbatim>\<open>float64\<close> nearest to \<open>n\<close>, the
  \<^verbatim>\<open>Id\<close> of the record is the decimal form of the integer part \<open>i\<close> of \<open>x\<close>, the
  fraction dropped, whenever \<open>i\<close> is in the range of \<^verbatim>\<open>int\<close>. When \<open>n\<close> is an integer
  of magnitude at most \<open>2 ^ 53\<close>, the \<^verbatim>\<open>Id\<close> is the decimal form of \<open>n\<close> itself, so
  \<^verbatim>\<open>"7"\<close> for 7.
\<close>

theorem Get_numeric_Id:
  assumes get: "Get (Unmarshal fs) rt e (Some cl) uri r = (Return None, e', r', reqs)"
      and resp: "clientGet cl uri = Inr resp" "Body resp = Inr (Some (JObj body))"
      and idnum: "map_of (rev body) ''Id'' = Some (JNum n)"
      and field: "findField fs ''Id'' = Some (''Id'', TString)"
      and only: "\<forall>kv \<in> set body. fst kv \<noteq> ''Id'' \<longrightarrow>
                   (\<forall>f. findField fs (fst kv) = Some f \<longrightarrow> fst f \<noteq> ''Id'')"
  shows "(\<exists>odataId. map_of (rev body) ''@odata.id'' = Some (JStr odataId) \<and>
            (Contains odataId ''/redfish/v1/Chassis/1/Drives/'' \<or>
             Contains odataId ''/redfish/v1/Chassis/1/PCIeDevices/'')) \<and>
         (\<exists>x. float64 n = Some x \<and>
            (\<forall>i. ((0 \<le> x \<and> of_int i \<le> x \<and> x < of_int i + 1) \<or>
                  (x < 0 \<and> of_int i - 1 < x \<and> x \<le> of_int i)) \<and>
                 - (2 ^ 63) \<le> i \<and> i < 2 ^ 63 \<longrightarrow>
                 map_of r' ''Id'' = Some (JStr (Itoa i)))) \<and>
         (\<forall>i. n = of_int i \<and> \<bar>i\<bar> \<le> 2 ^ 53 \<longrightarrow> map_of r' ''Id'' = Some (JStr (Itoa i)))"
proof -
  let ?C = "checkOf body"
  let ?N = "normalize rt ?C"
  let ?kvs = "sort_key fst (map (\<lambda>kv. (fst kv, marshalValue (snd kv))) ?N)"
  from Get_decodes_whole_body [OF get resp]
  have no: "\<not> overflows (JObj body)"
    and dec: "decodeEntries fs ?kvs r None = (None, r')"
    by (simp_all add: Unmarshal_def marshal_object del: marshalValue.simps)
  have "(''Id'', JNum n) \<in> set (rev body)" using idnum by (rule map_of_SomeD)
  then have "(''Id'', JNum n) \<in> set body" by simp
  from overflows_member [OF no this] obtain x where x: "float64 n = Some x" by blast
  have cid: "map_of ?C ''Id'' = Some (JNum x)"
    using idnum x by (simp add: map_of_checkOf)
  have "map_of ?N ''Id'' = Some (JNum x) \<or> map_of ?N ''Id'' = Some (JStr (Itoa (goInt rt x)))"
    using cid
    by (simp add: map_of_normalize_Id idToString_def split: option.splits json.splits)
  then obtain v where v: "map_of ?N ''Id'' = Some v"
    and vcases: "v = JNum x \<or> v = JStr (Itoa (goInt rt x))"
    by blast
  have mem: "(''Id'', marshalValue v) \<in> set ?kvs" using marshalled_member [OF v] .
  from decodeEntries_no_error [OF dec mem] field
  have "marshalValue v = JNull \<or> (\<exists>s. marshalValue v = JStr s)" by simp
  then have vstr: "v = JStr (Itoa (goInt rt x))" using vcases by auto
  then have nid: "map_of ?N ''Id'' = Some (JStr (Itoa (goInt rt x)))" using v by simp
  then have "map_of ?N ''Id'' \<noteq> Some (JNum x)" by simp
  then obtain odataId where o: "map_of ?C ''@odata.id'' = Some (JStr odataId)"
    and c: "Contains odataId ''/redfish/v1/Chassis/1/Drives/'' \<or>
            Contains odataId ''/redfish/v1/Chassis/1/PCIeDevices/''"
    using cid by (auto simp: map_of_normalize_Id split: option.splits json.splits if_splits)
  from o obtain w where w: "map_of (rev body) ''@odata.id'' = Some w" "anyValue w = JStr odataId"
    by (auto simp: map_of_checkOf)
  then have "map_of (rev body) ''@odata.id'' = Some (JStr odataId)"
    by (simp add: anyValue_JStr)
  then have pat: "\<exists>odataId. map_of (rev body) ''@odata.id'' = Some (JStr odataId) \<and>
            (Contains odataId ''/redfish/v1/Chassis/1/Drives/'' \<or>
             Contains odataId ''/redfish/v1/Chassis/1/PCIeDevices/'')"
    using c by blast
  have stored: "map_of r' ''Id'' = Some (JStr (Itoa (goInt rt x)))"
    by (rule Get_populates_string_field [OF get resp nid field only])
  have trunc: "\<forall>i. ((0 \<le> x \<and> of_int i \<le> x \<and> x < of_int i + 1) \<or>
                  (x < 0 \<and> of_int i - 1 < x \<and> x \<le> of_int i)) \<and>
                 - (2 ^ 63) \<le> i \<and> i < 2 ^ 63 \<longrightarrow>
                 map_of r' ''Id'' = Some (JStr (Itoa i))"
    using stored goInt_trunc [of x _ rt] by auto
  have small: "map_of r' ''Id'' = Some (JStr (Itoa i))" if "n = of_int i" "\<bar>i\<bar> \<le> 2 ^ 53" for i
  proof -
    have "x = of_int i" using x that float64_of_int [of i] by simp
    moreover have "- (2 ^ 63) \<le> i" "i < 2 ^ 63" using that(2) by auto
    ultimately show ?thesis using stored by (simp add: goInt_of_int)
  qed
  show ?thesis using pat x trunc small by blast
qed

lemma Itoa_7: "Itoa 7 = ''7''"
  by (simp add: Itoa_def natToString.simps)

lemma Itoa_2_53: "Itoa 9007199254740992 = ''9007199254740992''"
  by (simp add: Itoa_def natToString.simps)

lemma sorted_entity_keys: "sorted [''@odata.id'', ''Id'', ''Name'']"
  by code_simp

lemma marshal_entity:
  "marshalValue (JObj [(''@odata.id'', a), (''Id'', b), (''Name'', c)])
   = JObj [(''@odata.id'', marshalValue a), (''Id'', marshalValue b), (''Name'', marshalValue c)]"
proof -
  have "sort_key fst [(''@odata.id'', marshalValue a), (''Id'', marshalValue b), (''Name'', marshalValue c)]
        = [(''@odata.id'', marshalValue a), (''Id'', marshalValue b), (''Name'', marshalValue c)]"
    by (rule sort_key_id_if_sorted) (simp add: sorted_entity_keys)
  then show ?thesis by (simp only: marshal_object list.map fst_conv snd_conv)
qed

lemma checkOf_entity:
  "checkOf [(''@odata.id'', a), (''Id'', b), (''Name'', c)]
   = [(''@odata.id'', anyValue a), (''Id'', anyValue b), (''Name'', anyValue c)]"
  by (simp add: checkOf_def lastWins_def)

lemma normalize_drive:
  "normalize rt [(''@odata.id'', JStr ''/redfish/v1/Chassis/1/Drives/3''), (''Id'', JNum x),
                 (''Name'', JStr ''disk'')] =
     [(''@odata.id'', JStr ''/redfish/v1/Chassis/1/Drives/3''), (''Id'', JStr (Itoa (goInt rt x))),
      (''Name'', JStr ''disk'')]"
  by (simp add: normalize_def floatToString_def checkDrives_def)

lemma normalize_system:
  "normalize rt [(''@odata.id'', JStr ''/redfish/v1/Systems/1''), (''Id'', ident),
                 (''Name'', JStr ''System'')]
   = [(''@odata.id'', JStr ''/redfish/v1/Systems/1''), (''Id'', ident), (''Name'', JStr ''System'')]"
  by (simp add: normalize_def)

lemmas eval_decode = Unmarshal_def entityShape_def zeroRecord_def findField_def store.simps
  equalFold_def toUpper_def

lemma Get_drive:
  assumes "float64 n = Some x"
  shows "Get (Unmarshal entityShape) rt newEntity (Some (bodyClient (JObj (driveBody n)) noHeaders)) uri
     (zeroRecord entityShape)
   = (Return None, newEntity\<lparr>client := Some (bodyClient (JObj (driveBody n)) noHeaders)\<rparr>,
      [(''@odata.id'', JStr ''/redfish/v1/Chassis/1/Drives/3''), (''Id'', JStr (Itoa (goInt rt x))),
       (''Name'', JStr ''disk'')],
      [GetReq uri])"
  using assms
  apply (simp add: Get_def bodyClient_def readCheck_def Marshal_def driveBody_def checkOf_entity
      normalize_drive marshal_entity del: marshalValue.simps(3))
  apply (simp add: eval_decode saveEtag_def SetClient_def noHeaders_def)
  done

lemma goInt_half: "goInt rt (15 / 2) = 7"
  by (rule goInt_trunc) simp_all

lemma Get_drive_7:
  "Get (Unmarshal entityShape) rt newEntity (Some (bodyClient (JObj (driveBody 7)) noHeaders)) uri
     (zeroRecord entityShape)
   = (Return None, newEntity\<lparr>client := Some (bodyClient (JObj (driveBody 7)) noHeaders)\<rparr>,
      [(''@odata.id'', JStr ''/redfish/v1/Chassis/1/Drives/3''), (''Id'', JStr ''7''),
       (''Name'', JStr ''disk'')],
      [GetReq uri])"
  using Get_drive [OF float64_examples(1), of rt uri] goInt_of_int [of 7 rt] by (simp add: Itoa_7)

lemma Get_drive_half:
  "Get (Unmarshal entityShape) rt newEntity (Some (bodyClient (JObj (driveBody (15 / 2))) noHeaders)) uri
     (zeroRecord entityShape)
   = (Return None, newEntity\<lparr>client := Some (bodyClient (JObj (driveBody (15 / 2))) noHeaders)\<rparr>,
      [(''@odata.id'', JStr ''/redfish/v1/Chassis/1/Drives/3''), (''Id'', JStr ''7''),
       (''Name'', JStr ''disk'')],
      [GetReq uri])"
  using Get_drive [OF float64_examples(2), of rt uri] by (simp add: goInt_half Itoa_7)

lemma Get_drive_2_53:
  "Get (Unmarshal entityShape) rt newEntity
     (Some (bodyClient (JObj (driveBody 9007199254740993)) noHeaders)) uri (zeroRecord entityShape)
   = (Return None,
      newEntity\<lparr>client := Some (bodyClient (JObj (driveBody 9007199254740993)) noHeaders)\<rparr>,
      [(''@odata.id'', JStr ''/redfish/v1/Chassis/1/Drives/3''), (''Id'', JStr ''9007199254740992''),
       (''Name'', JStr ''disk'')],
      [GetReq uri])"
  using Get_drive [OF float64_examples(3), of rt uri] goInt_of_int [of 9007199254740992 rt]
  by (simp add: Itoa_2_53)

lemma Get_system_7:
  "Get (Unmarshal entityShape) rt newEntity (Some (bodyClient (JObj (systemBody (JNum 7))) noHeaders)) uri
     (zeroRecord entityShape)
   = (Return (Some (UnmarshalTypeError ''number'')), newEntity,
      [(''@odata.id'', JStr ''/redfish/v1/Systems/1''), (''Id'', JStr []),
       (''Name'', JStr ''System'')],
      [GetReq uri])"
  apply (simp add: Get_def bodyClient_def readCheck_def Marshal_def systemBody_def checkOf_entity
      normalize_system marshal_entity float64_examples del: marshalValue.simps(3))
  apply (simp add: eval_decode)
  done

lemma Get_system_string:
  "Get (Unmarshal entityShape) rt newEntity (Some (bodyClient (JObj (systemBody (JStr ''1''))) noHeaders)) uri
     (zeroRecord entityShape)
   = (Return None, newEntity\<lparr>client := Some (bodyClient (JObj (systemBody (JStr ''1''))) noHeaders)\<rparr>,
      [(''@odata.id'', JStr ''/redfish/v1/Systems/1''), (''Id'', JStr ''1''),
       (''Name'', JStr ''System'')],
      [GetReq uri])"
  apply (simp add: Get_def bodyClient_def readCheck_def Marshal_def systemBody_def checkOf_entity
      normalize_system marshal_entity del: marshalValue.simps(3))
  apply (simp add: eval_decode saveEtag_def SetClient_def noHeaders_def)
  done

lemma Get2_system_7:
  "Get2 (Unmarshal entityShape) newEntity (Some (bodyClient (JObj (systemBody (JNum 7))) noHeaders)) uri
     (zeroRecord entityShape)
   = (Return (Some (UnmarshalTypeError ''number'')), newEntity, zeroRecord entityShape, [GetReq uri])"
  by (simp add: Get2_def bodyClient_def readCheckStruct_def asInt_def systemBody_def eval_decode
        float64_examples)

lemma Get2_system_string:
  "Get2 (Unmarshal entityShape) newEntity (Some (bodyClient (JObj (systemBody (JStr ''1''))) noHeaders)) uri
     (zeroRecord entityShape)
   = (Return None, newEntity\<lparr>client := Some (bodyClient (JObj (systemBody (JStr ''1''))) noHeaders)\<rparr>,
      [(''@odata.id'', JStr []), (''Id'', JStr ''1''), (''Name'', JStr [])],
      [GetReq uri])"
  by (simp add: Get2_def bodyClient_def readCheckStruct_def asInt_def systemBody_def eval_decode
        saveEtag_def SetClient_def noHeaders_def)

theorem Get_numeric_Id_witness:
  "Get (Unmarshal entityShape) amd64 newEntity
     (Some (bodyClient (JObj (driveBody 7)) noHeaders)) ''/redfish/v1/Chassis/1/Drives/3''
     (zeroRecord entityShape)
   = (Return None, newEntity\<lparr>client := Some (bodyClient (JObj (driveBody 7)) noHeaders)\<rparr>,
      [(''@odata.id'', JStr ''/redfish/v1/Chassis/1/Drives/3''), (''Id'', JStr ''7''),
       (''Name'', JStr ''disk'')],
      [GetReq ''/redfish/v1/Chassis/1/Drives/3'']) \<and>
   Contains ''/redfish/v1/Chassis/1/Drives/3'' ''/redfish/v1/Chassis/1/Drives/'' \<and>
   map_of [(''@odata.id'', JStr ''/redfish/v1/Chassis/1/Drives/3''), (''Id'', JStr ''7''),
           (''Name'', JStr ''disk'')] ''Id'' = Some (JStr (Itoa 7)) \<and>
   Itoa 7 = ''7''"
proof -
  let ?cl = "bodyClient (JObj (driveBody 7)) noHeaders"
  let ?resp = "\<lparr>Body = Inr (Some (JObj (driveBody 7))), Close = None, Header = noHeaders\<rparr>"
  have resp: "clientGet ?cl ''/redfish/v1/Chassis/1/Drives/3'' = Inr ?resp"
    "Body ?resp = Inr (Some (JObj (driveBody 7)))"
    by (simp_all add: bodyClient_def)
  have idnum: "map_of (rev (driveBody 7)) ''Id'' = Some (JNum 7)"
    by (simp add: driveBody_def)
  have field: "findField entityShape ''Id'' = Some (''Id'', TString)"
    by (simp add: findField_def entityShape_def)
  have only: "\<forall>kv \<in> set (driveBody 7). fst kv \<noteq> ''Id'' \<longrightarrow>
                (\<forall>f. findField entityShape (fst kv) = Some f \<longrightarrow> fst f \<noteq> ''Id'')"
    by (simp add: driveBody_def findField_def entityShape_def equalFold_def)
  from Get_numeric_Id [OF Get_drive_7 resp idnum field only]
  have "\<forall>i. (7::rat) = of_int i \<and> \<bar>i\<bar> \<le> 2 ^ 53 \<longrightarrow>
          map_of [(''@odata.id'', JStr ''/redfish/v1/Chassis/1/Drives/3''), (''Id'', JStr ''7''),
                  (''Name'', JStr ''disk'')] ''Id'' = Some (JStr (Itoa i))"
    by blast
  from this [rule_format, of 7]
  have "map_of [(''@odata.id'', JStr ''/redfish/v1/Chassis/1/Drives/3''), (''Id'', JStr ''7''),
           (''Name'', JStr ''disk'')] ''Id'' = Some (JStr (Itoa 7))"
    by simp
  moreover have "Contains ''/redfish/v1/Chassis/1/Drives/3'' ''/redfish/v1/Chassis/1/Drives/''"
    by simp
  ultimately show ?thesis using Get_drive_7 Itoa_7 by blast
qed

text \<open>
  Four calls. A drive whose \<^verbatim>\<open>Id\<close> is 7.5: \<open>Get\<close> succeeds and the record holds
  \<^verbatim>\<open>"7"\<close>. A drive whose \<^verbatim>\<open>Id\<close> is 9007199254740993: the record holds
  \<^verbatim>\<open>"9007199254740992"\<close>, the nearest \<^verbatim>\<open>float64\<close>. A computer system whose \<^verbatim>\<open>Id\<close> is
  7: its \<^verbatim>\<open>@odata.id\<close> matches none of the two patterns, the number reaches the decoder,
  \<open>Get\<close> returns the type error and the \<^verbatim>\<open>Id\<close> of the record stays empty. The same
  system through the second version of \<open>Get\<close>: the type switch does not fire and the
  call returns the type error.
\<close>

theorem Get_numeric_Id_counterexample:
  "Get (Unmarshal entityShape) amd64 newEntity
     (Some (bodyClient (JObj (driveBody (15 / 2))) noHeaders)) ''/redfish/v1/Chassis/1/Drives/3''
     (zeroRecord entityShape)
   = (Return None, newEntity\<lparr>client := Some (bodyClient (JObj (driveBody (15 / 2))) noHeaders)\<rparr>,
      [(''@odata.id'', JStr ''/redfish/v1/Chassis/1/Drives/3''), (''Id'', JStr ''7''),
       (''Name'', JStr ''disk'')],
      [GetReq ''/redfish/v1/Chassis/1/Drives/3'']) \<and>
   Get (Unmarshal entityShape) amd64 newEntity
     (Some (bodyClient (JObj (driveBody 9007199254740993)) noHeaders)) ''/redfish/v1/Chassis/1/Drives/3''
     (zeroRecord entityShape)
   = (Return None,
      newEntity\<lparr>client := Some (bodyClient (JObj (driveBody 9007199254740993)) noHeaders)\<rparr>,
      [(''@odata.id'', JStr ''/redfish/v1/Chassis/1/Drives/3''), (''Id'', JStr ''9007199254740992''),
       (''Name'', JStr ''disk'')],
      [GetReq ''/redfish/v1/Chassis/1/Drives/3'']) \<and>
   Get (Unmarshal entityShape) amd64 newEntity
     (Some (bodyClient (JObj (systemBody (JNum 7))) noHeaders)) ''/redfish/v1/Systems/1''
     (zeroRecord entityShape)
   = (Return (Some (UnmarshalTypeError ''number'')), newEntity,
      [(''@odata.id'', JStr ''/redfish/v1/Systems/1''), (''Id'', JStr []),
       (''Name'', JStr ''System'')],
      [GetReq ''/redfish/v1/Systems/1'']) \<and>
   Get2 (Unmarshal entityShape) newEntity
     (Some (bodyClient (JObj (systemBody (JNum 7))) noHeaders)) ''/redfish/v1/Systems/1''
     (zeroRecord entityShape)
   = (Return (Some (UnmarshalTypeError ''number'')), newEntity, zeroRecord entityShape,
      [GetReq ''/redfish/v1/Systems/1''])"
  using Get_drive_half Get_drive_2_53 Get_system_7 Get2_system_7 by blast

text \<open>
  C6. A computer system with the identifier \<^verbatim>\<open>"1"\<close> and the name \<^verbatim>\<open>System\<close>, fetched
  into a record with the fields of an entity. The second version of \<open>Get\<close> succeeds and
  leaves \<^verbatim>\<open>@odata.id\<close> and \<^verbatim>\<open>Name\<close> empty: only the identifier reaches the record. The
  first version decodes the three fields (lemmas \<open>Get_decodes_whole_body\<close> and
  \<open>Get_populates_string_field\<close> for every body).
\<close>

theorem Get2_drops_fields:
  "Get2 (Unmarshal entityShape) newEntity
     (Some (bodyClient (JObj (systemBody (JStr ''1''))) noHeaders)) ''/redfish/v1/Systems/1''
     (zeroRecord entityShape)
   = (Return None, newEntity\<lparr>client := Some (bodyClient (JObj (systemBody (JStr ''1''))) noHeaders)\<rparr>,
      [(''@odata.id'', JStr []), (''Id'', JStr ''1''), (''Name'', JStr [])],
      [GetReq ''/redfish/v1/Systems/1'']) \<and>
   Get (Unmarshal entityShape) amd64 newEntity
     (Some (bodyClient (JObj (systemBody (JStr ''1''))) noHeaders)) ''/redfish/v1/Systems/1''
     (zeroRecord entityShape)
   = (Return None, newEntity\<lparr>client := Some (bodyClient (JObj (systemBody (JStr ''1''))) noHeaders)\<rparr>,
      [(''@odata.id'', JStr ''/redfish/v1/Systems/1''), (''Id'', JStr ''1''),
       (''Name'', JStr ''System'')],
      [GetReq ''/redfish/v1/Systems/1''])"
  using Get2_system_string Get_system_string by blast


end
